theory Spec2Isabelle
  imports Complex_Main "HOL-Library.Word"
begin

section \<open>Numeric types of the default path\<close>

text \<open>
  The default binding instantiates the kernels with \<open>Data = float\<close>,
  \<open>ErrCtrl = uint16_t\<close> (\<open>ErrCtrlTrait<2>\<close>) and \<open>FP = float\<close>
  (\<open>FastLowPrecisionTrait<true>\<close>).

  A \<open>float\<close> is an IEEE 754 binary32 value: a finite number \<open>m * 2^e\<close> with
  \<open>|m| < 2^24\<close> and \<open>-149 \<le> e \<le> 104\<close>, an infinity or a NaN. The two zeros are
  identified: they compare equal, and no operation of the kernels (no division, no sign
  test) tells them apart. Every arithmetic operation rounds its exact result to the
  nearest binary32 value, halfway cases to the even significand, and overflows to an
  infinity.
\<close>

datatype float32 = Finite real | PInf | NInf | NaN

type_synonym Data = float32
type_synonym FP = float32
type_synonym ErrCtrl = "16 word"

text \<open>
  The exponent of the unit in the last place of the binade that holds \<open>x\<close>:
  \<open>-149\<close> for subnormal \<open>x\<close>, otherwise \<open>e - 23\<close> where \<open>2^e \<le> |x| < 2^(e+1)\<close>,
  found by halving \<open>|x| * 2^126\<close> (at most 254 times, which covers every product and
  sum of two finite values below the overflow threshold).
\<close>

primrec normal_exp :: "nat \<Rightarrow> real \<Rightarrow> int" where
  "normal_exp 0 y = 0"
| "normal_exp (Suc n) y = (if y < 2 then 0 else 1 + normal_exp n (y / 2))"

definition ulp_exp :: "real \<Rightarrow> int" where
  "ulp_exp x = (if \<bar>x\<bar> < 2 powi (- 126) then - 149
                else normal_exp 254 (\<bar>x\<bar> * 2 ^ 126) - 149)"

text \<open>Nearest integer, halfway cases to the even one.\<close>

definition round_ne :: "real \<Rightarrow> int" where
  "round_ne x = (let f = \<lfloor>x\<rfloor>
                 in if x - of_int f < 1 / 2 then f
                    else if 1 / 2 < x - of_int f then f + 1
                    else if even f then f else f + 1)"

text \<open>
  Rounding to binary32 with unbounded exponent range (\<open>fl32\<close>), and the result of an
  operation whose exact value is \<open>x\<close> (\<open>rnd32\<close>): an infinity when the rounded
  magnitude reaches \<open>2^128\<close>.
\<close>

definition fl32 :: "real \<Rightarrow> real" where
  "fl32 x = of_int (round_ne (x / 2 powi ulp_exp x)) * 2 powi ulp_exp x"

definition rnd32 :: "real \<Rightarrow> float32" where
  "rnd32 x = (let y = fl32 x
              in if 2 ^ 128 \<le> \<bar>y\<bar> then (if 0 < x then PInf else NInf) else Finite y)"

text \<open>Negation, addition, subtraction, multiplication, \<open>fabs\<close> and \<open><\<close>.\<close>

fun fneg :: "float32 \<Rightarrow> float32" where
  "fneg (Finite x) = Finite (- x)"
| "fneg PInf = NInf"
| "fneg NInf = PInf"
| "fneg NaN = NaN"

fun fadd :: "float32 \<Rightarrow> float32 \<Rightarrow> float32" where
  "fadd (Finite x) (Finite y) = rnd32 (x + y)"
| "fadd NaN b = NaN"
| "fadd a NaN = NaN"
| "fadd PInf NInf = NaN"
| "fadd NInf PInf = NaN"
| "fadd PInf b = PInf"
| "fadd a PInf = PInf"
| "fadd NInf b = NInf"
| "fadd a NInf = NInf"

definition fsub :: "float32 \<Rightarrow> float32 \<Rightarrow> float32" where
  "fsub a b = fadd a (fneg b)"

fun fmul :: "float32 \<Rightarrow> float32 \<Rightarrow> float32" where
  "fmul (Finite x) (Finite y) = rnd32 (x * y)"
| "fmul NaN b = NaN"
| "fmul a NaN = NaN"
| "fmul (Finite x) PInf = (if x = 0 then NaN else if 0 < x then PInf else NInf)"
| "fmul (Finite x) NInf = (if x = 0 then NaN else if 0 < x then NInf else PInf)"
| "fmul PInf (Finite y) = (if y = 0 then NaN else if 0 < y then PInf else NInf)"
| "fmul NInf (Finite y) = (if y = 0 then NaN else if 0 < y then NInf else PInf)"
| "fmul PInf PInf = PInf"
| "fmul PInf NInf = NInf"
| "fmul NInf PInf = NInf"
| "fmul NInf NInf = PInf"

fun fabs :: "float32 \<Rightarrow> float32" where
  "fabs (Finite x) = Finite \<bar>x\<bar>"
| "fabs PInf = PInf"
| "fabs NInf = PInf"
| "fabs NaN = NaN"

fun flt :: "float32 \<Rightarrow> float32 \<Rightarrow> bool" where
  "flt (Finite x) (Finite y) = (x < y)"
| "flt NaN b = False"
| "flt a NaN = False"
| "flt a NInf = False"
| "flt PInf b = False"
| "flt NInf b = True"
| "flt a PInf = True"

text \<open>
  C's \<open>round\<close>: to the nearest integer, halfway cases away from zero; the result of
  rounding a binary32 value is a binary32 value, infinities and NaN are returned as
  they are.
\<close>

definition c_round :: "real \<Rightarrow> real" where
  "c_round v = (if 0 \<le> v then of_int \<lfloor>v + 1 / 2\<rfloor> else of_int \<lceil>v - 1 / 2\<rceil>)"

fun fround :: "float32 \<Rightarrow> float32" where
  "fround (Finite x) = Finite (c_round x)"
| "fround a = a"

text \<open>
  Conversions. An \<open>int\<close> operand of a mixed expression (\<open>radius\<close>,
  \<open>1 - quantizable\<close>) is converted to \<open>float\<close> with rounding; a quant code
  converts exactly (\<open>static_cast<Data>(quant)\<close>).

  \<open>static_cast<ErrCtrl>(candidate)\<close> truncates towards zero. When the truncated value
  is not in \<open>0 .. 65535\<close>, or the operand is an infinity or a NaN, C++ leaves the
  conversion undefined (the device instruction saturates, a host build wraps around):
  the result is then taken from the parameter \<open>oor\<close>, so that what is proved holds for
  each of these behaviours.
\<close>

definition Data_of_int :: "int \<Rightarrow> Data" where
  "Data_of_int n = rnd32 (of_int n)"

definition static_cast_Data :: "ErrCtrl \<Rightarrow> Data" where
  "static_cast_Data q = Finite (real (unat q))"

definition static_cast_ErrCtrl :: "(Data \<Rightarrow> ErrCtrl) \<Rightarrow> Data \<Rightarrow> ErrCtrl" where
  "static_cast_ErrCtrl oor c =
     (case c of
        Finite x \<Rightarrow> if - 1 < x \<and> x < 65536
                    then word_of_int (if 0 \<le> x then \<lfloor>x\<rfloor> else \<lceil>x\<rceil>) else oor c
      | _ \<Rightarrow> oor c)"

section \<open>Forward predictor: pre- and post-quantisation\<close>

text \<open>
  Pre-quantisation, as every forward kernel does it on loading a sample:
  \<open>round(data[id] * ebx2_r)\<close>, where \<open>ebx2_r\<close> is the kernel parameter documented as
  the ``precalculated reciprocal of eb*2''.
\<close>

definition prequant :: "FP \<Rightarrow> Data \<Rightarrow> Data" where
  "prequant ebx2_r v = fround (fmul v ebx2_r)"

text \<open>
  The body shared by \<open>pred1d_postquant\<close>, \<open>postquant_write2d\<close> and the 3D kernel:
  \<^verbatim>\<open>
    bool quantizable = fabs(delta) < radius;
    Data candidate   = delta + radius;
    outlier          = (1 - quantizable) * candidate;
    quant            = quantizable * static_cast<ErrCtrl>(candidate);
  \<close>
  The result is the pair (outlier, quant).
\<close>

definition postquant :: "(Data \<Rightarrow> ErrCtrl) \<Rightarrow> int \<Rightarrow> Data \<Rightarrow> Data \<times> ErrCtrl" where
  "postquant oor radius delta =
     (let quantizable = flt (fabs delta) (Data_of_int radius);
          candidate = fadd delta (Data_of_int radius)
      in (fmul (Data_of_int (1 - of_bool quantizable)) candidate,
          of_bool quantizable * static_cast_ErrCtrl oor candidate))"

section \<open>Inverse predictor: fused load and scans\<close>

text \<open>
  The fused load of the inverse kernels:
  \<open>outlier[gid] + static_cast<Data>(quant[gid]) - radius\<close>.
\<close>

definition fuse :: "int \<Rightarrow> Data \<Rightarrow> ErrCtrl \<Rightarrow> Data" where
  "fuse radius outlier quant = fsub (fadd outlier (static_cast_Data quant)) (Data_of_int radius)"

text \<open>
  One step of the in-warp partial sum, for the lanes \<open>lane\<close> of a shuffle segment:
  \<^verbatim>\<open>
    Data n = __shfl_up_sync(0xffffffff, i, d, WIDTH);
    if (lane >= d) i += n;
  \<close>
  and the loop \<open>for (auto d = 1; d < BLOCK; d *= 2)\<close> around it.
\<close>

definition shfl_up_add :: "nat \<Rightarrow> (nat \<Rightarrow> Data) \<Rightarrow> nat \<Rightarrow> Data" where
  "shfl_up_add d v lane = (if d \<le> lane then fadd (v lane) (v (lane - d)) else v lane)"

function shfl_scan :: "nat \<Rightarrow> nat \<Rightarrow> (nat \<Rightarrow> Data) \<Rightarrow> nat \<Rightarrow> Data" where
  "shfl_scan BLOCK d v =
     (if 0 < d \<and> d < BLOCK then shfl_scan BLOCK (d * 2) (shfl_up_add d v) else v)"
  by pat_completeness auto
termination
  by (relation "measure (\<lambda>(BLOCK, d, v). BLOCK - d)") auto

text \<open>
  The sequential partial sum of a thread over its items:
  \<open>for (auto i = 1; i < YSEQ; i++) thread_scope[i] += thread_scope[i - 1];\<close>
\<close>

primrec seq_sum :: "(nat \<Rightarrow> Data) \<Rightarrow> nat \<Rightarrow> Data" where
  "seq_sum thread_scope 0 = thread_scope 0"
| "seq_sum thread_scope (Suc i) = fadd (thread_scope (Suc i)) (seq_sum thread_scope i)"

section \<open>1D forward kernel \<open>c_lorenzo_1d1l\<close>\<close>

text \<open>
  A device pointer (\<open>Data*\<close>, \<open>ErrCtrl*\<close>) is the function from offsets to the values
  stored there; a kernel returns the arrays it has written.

  A thread block of \<open>NTHREAD = BLOCK / SEQ\<close> threads handles the \<open>BLOCK\<close> samples
  from \<open>id_base = BIX * BLOCK\<close>. Each shared-memory slot is written by exactly one
  (thread, iteration) pair, so a loop over threads and iterations is given by the value it
  leaves in each slot.

  \<open>load1d\<close>: thread \<open>TIX\<close>, iteration \<open>i\<close> stores
  \<open>round(data[id] * ebx2_r)\<close> in slot \<open>TIX + i * NTHREAD\<close> when
  \<open>id = id_base + TIX + i * NTHREAD < dimx\<close>; other slots keep what the
  (uninitialised) shared memory held.
\<close>

definition load1d ::
  "(nat \<Rightarrow> Data) \<Rightarrow> nat \<Rightarrow> nat \<Rightarrow> (nat \<Rightarrow> Data) \<Rightarrow> FP \<Rightarrow> nat \<Rightarrow> nat \<Rightarrow> (nat \<Rightarrow> Data)" where
  "load1d data dimx id_base shmem_data ebx2_r NTHREAD SEQ =
     (\<lambda>slot. let TIX = slot mod NTHREAD; i = slot div NTHREAD;
                  id = id_base + TIX + i * NTHREAD
              in if i < SEQ \<and> id < dimx then prequant ebx2_r (data id)
                 else shmem_data slot)"

text \<open>
  After the barrier: \<open>thread_scope[i] = shmem_data[TIX * SEQ + i]\<close> and
  \<open>if (TIX > 0) from_last_stripe = shmem_data[TIX * SEQ - 1]\<close> (initialised to 0).
\<close>

definition thread_scope_1d :: "(nat \<Rightarrow> Data) \<Rightarrow> nat \<Rightarrow> nat \<Rightarrow> nat \<Rightarrow> Data" where
  "thread_scope_1d shmem_data SEQ TIX i = shmem_data (TIX * SEQ + i)"

definition from_last_stripe_1d :: "(nat \<Rightarrow> Data) \<Rightarrow> nat \<Rightarrow> nat \<Rightarrow> Data" where
  "from_last_stripe_1d shmem_data SEQ TIX =
     (if TIX > 0 then shmem_data (TIX * SEQ - 1) else Finite 0)"

text \<open>
  \<open>pred1d_postquant<.., FIRST_POINT>\<close>: the pair (outlier, quant) stored in slot
  \<open>i + TIX * SEQ\<close> of \<open>shmem_data\<close> and \<open>shmem_quant\<close>; with \<open>FIRST_POINT\<close>
  only \<open>i = 0\<close> is written, otherwise \<open>i = 1 .. SEQ - 1\<close>.
\<close>

definition pred1d_postquant ::
  "(Data \<Rightarrow> ErrCtrl) \<Rightarrow> bool \<Rightarrow> (nat \<Rightarrow> Data) \<Rightarrow> int \<Rightarrow> Data \<Rightarrow> nat \<Rightarrow> Data \<times> ErrCtrl" where
  "pred1d_postquant oor FIRST_POINT thread_scope radius from_last_stripe i =
     (let delta = (if FIRST_POINT then fsub (thread_scope 0) from_last_stripe
                   else fsub (thread_scope i) (thread_scope (i - 1)))
      in postquant oor radius delta)"

text \<open>Shared memory of block \<open>BIX\<close> after both \<open>pred1d_postquant\<close> calls.\<close>

definition c_lorenzo_1d1l_shmem ::
  "(Data \<Rightarrow> ErrCtrl) \<Rightarrow> (nat \<Rightarrow> Data) \<Rightarrow> nat \<Rightarrow> int \<Rightarrow> FP \<Rightarrow> nat \<Rightarrow> nat \<Rightarrow> (nat \<Rightarrow> Data) \<Rightarrow> nat
     \<Rightarrow> nat \<Rightarrow> Data \<times> ErrCtrl" where
  "c_lorenzo_1d1l_shmem oor data dimx radius ebx2_r BLOCK SEQ shmem0 BIX =
     (let NTHREAD = BLOCK div SEQ;
          id_base = BIX * BLOCK;
          shmem_data = load1d data dimx id_base shmem0 ebx2_r NTHREAD SEQ
      in (\<lambda>slot. let TIX = slot div SEQ; i = slot mod SEQ;
                      thread_scope = thread_scope_1d shmem_data SEQ TIX;
                      from_last_stripe = from_last_stripe_1d shmem_data SEQ TIX
                  in if i = 0
                     then pred1d_postquant oor True thread_scope radius from_last_stripe 0
                     else pred1d_postquant oor False thread_scope radius (Finite 0) i))"

text \<open>
  The kernel, launched with \<open>GDX\<close> blocks of \<open>BLOCK / SEQ\<close> threads. \<open>write1d\<close>
  copies slot \<open>TIX + i * NTHREAD\<close> to \<open>data[id]\<close> and \<open>quant[id]\<close> when
  \<open>id < dimx\<close>. The result is the pair (quant, outlier) of output arrays.
\<close>

definition c_lorenzo_1d1l ::
  "(Data \<Rightarrow> ErrCtrl) \<Rightarrow> (nat \<Rightarrow> Data) \<Rightarrow> (nat \<Rightarrow> ErrCtrl) \<Rightarrow> (nat \<Rightarrow> Data) \<Rightarrow> nat \<Rightarrow> int \<Rightarrow> FP
     \<Rightarrow> nat \<Rightarrow> nat \<Rightarrow> nat \<Rightarrow> (nat \<Rightarrow> Data) \<Rightarrow> (nat \<Rightarrow> ErrCtrl) \<times> (nat \<Rightarrow> Data)" where
  "c_lorenzo_1d1l oor data quant outlier dimx radius ebx2_r BLOCK SEQ GDX shmem0 =
     (let NTHREAD = BLOCK div SEQ;
          shmem = c_lorenzo_1d1l_shmem oor data dimx radius ebx2_r BLOCK SEQ shmem0;
          written = (\<lambda>id. id < dimx \<and> id div BLOCK < GDX \<and> id mod BLOCK < NTHREAD * SEQ)
      in (\<lambda>id. if written id then snd (shmem (id div BLOCK) (id mod BLOCK)) else quant id,
          \<lambda>id. if written id then fst (shmem (id div BLOCK) (id mod BLOCK)) else outlier id))"

section \<open>1D inverse kernel \<open>x_lorenzo_1d1l\<close>\<close>

text \<open>
  \<open>cub::BlockScan::InclusiveSum\<close> over the items of a block in blocked order (thread
  \<open>TIX\<close> holds items \<open>TIX * SEQ .. TIX * SEQ + SEQ - 1\<close>): the running sums. The
  library is not part of the sources at hand and does not fix the order in which it
  adds; the sums are taken from left to right.
\<close>

fun InclusiveSum :: "Data \<Rightarrow> Data list \<Rightarrow> Data list" where
  "InclusiveSum acc [] = []"
| "InclusiveSum acc (v # vs) = fadd acc v # InclusiveSum (fadd acc v) vs"

text \<open>
  The fused load of thread \<open>TIX\<close>, item \<open>i\<close> in block \<open>BIX\<close>:
  \<^verbatim>\<open>
    auto id = (BIX * BDX + TIX) * SEQ + i;
    thread_scope.xdata[i] =
        id < dimx ? thread_scope.outlier[i] + static_cast<Data>(thread_scope_quant[i]) - radius : 0;
  \<close>
\<close>

definition x_lorenzo_1d1l_fuse ::
  "(nat \<Rightarrow> Data) \<Rightarrow> (nat \<Rightarrow> ErrCtrl) \<Rightarrow> nat \<Rightarrow> int \<Rightarrow> nat \<Rightarrow> nat \<Rightarrow> nat \<Rightarrow> nat \<Rightarrow> nat \<Rightarrow> Data" where
  "x_lorenzo_1d1l_fuse outlier quant dimx radius BDX SEQ BIX TIX i =
     (let id = (BIX * BDX + TIX) * SEQ + i
      in if id < dimx then fuse radius (outlier id) (quant id) else Finite 0)"

text \<open>
  The kernel, launched with \<open>GDX\<close> blocks of \<open>BDX = BLOCK / SEQ\<close> threads: fused
  load, block-wide inclusive sum, scaling by \<open>ebx2\<close>, and an unguarded block store to
  \<open>xdata + (BIX * BDX) * SEQ\<close>.
\<close>

definition x_lorenzo_1d1l ::
  "(nat \<Rightarrow> Data) \<Rightarrow> (nat \<Rightarrow> ErrCtrl) \<Rightarrow> (nat \<Rightarrow> Data) \<Rightarrow> nat \<Rightarrow> int \<Rightarrow> FP
     \<Rightarrow> nat \<Rightarrow> nat \<Rightarrow> nat \<Rightarrow> (nat \<Rightarrow> Data)" where
  "x_lorenzo_1d1l outlier quant xdata dimx radius ebx2 BLOCK SEQ GDX =
     (let BDX = BLOCK div SEQ;
          items = (\<lambda>BIX. map (\<lambda>p. x_lorenzo_1d1l_fuse outlier quant dimx radius BDX SEQ BIX
                                     (p div SEQ) (p mod SEQ)) [0..<BDX * SEQ]);
          scanned = (\<lambda>BIX. map (\<lambda>v. fmul v ebx2) (InclusiveSum (Finite 0) (items BIX)))
      in (\<lambda>id. if id div (BDX * SEQ) < GDX
                then scanned (id div (BDX * SEQ)) ! (id mod (BDX * SEQ))
                else xdata id))"

section \<open>Archive header\<close>

text \<open>
  Modelled from the spec: \<open>header.hh\<close> (struct \<open>cuszHEADER\<close>) is not part of the
  sources at hand. The fields are those of the archive layout (\<open>uint32 x, y, z; int
  radius; int vle_pardeg; double eb; int byte_vle; uint32 codecs_in_use; int
  nz_density_factor; uint32 header_nbyte; uint32 entry[END+1]\<close>) as the compressor
  uses them, each prefixed with \<open>h_\<close>; the header occupies 128 bytes; the subfile slots
  are \<open>HEADER = 0\<close>, \<open>ANCHOR = 1\<close>, \<open>VLE = 2\<close>, \<open>SPFMT = 3\<close>, \<open>END = 4\<close>;
  \<open>file_size()\<close> is \<open>entry[END]\<close> (the compressor reports
  \<open>compressed_len = entry[END]\<close>). The error bound \<open>eb\<close> is a \<open>double\<close> that
  the compressor stores and passes on without computing with it; it is carried as the
  real number it denotes.
\<close>

record cuszHEADER =
  h_x :: "32 word"
  h_y :: "32 word"
  h_z :: "32 word"
  h_radius :: int
  h_vle_pardeg :: int
  h_eb :: real
  h_byte_vle :: int
  h_codecs_in_use :: "32 word"
  h_nz_density_factor :: int
  h_header_nbyte :: "32 word"
  h_entry :: "nat \<Rightarrow> 32 word"

definition HEADER_HEADER :: nat where "HEADER_HEADER = 0"
definition HEADER_ANCHOR :: nat where "HEADER_ANCHOR = 1"
definition HEADER_VLE :: nat where "HEADER_VLE = 2"
definition HEADER_SPFMT :: nat where "HEADER_SPFMT = 3"
definition HEADER_END :: nat where "HEADER_END = 4"

definition sizeof_HEADER :: nat where "sizeof_HEADER = 128"

definition file_size :: "cuszHEADER \<Rightarrow> nat" where
  "file_size hdr = unat (h_entry hdr HEADER_END)"

text \<open>\<open>sizeof(T)\<close> for \<open>T = float\<close>.\<close>

definition sizeof_T :: nat where "sizeof_T = 4"

section \<open>Device memory\<close>

text \<open>
  A byte of device memory is uninitialised, a plain byte produced by a component, or
  the \<open>k\<close>-th byte of the object representation of a header or of a \<open>Data\<close> value
  (the layout of these objects is left abstract). A buffer is the list of its bytes;
  its length is the size of the allocation.
\<close>

type_synonym BYTE = "8 word"

datatype mem_byte = Uninit | Raw BYTE | HeaderByte cuszHEADER nat | DataByte Data nat

definition header_image :: "cuszHEADER \<Rightarrow> mem_byte list" where
  "header_image hdr = map (HeaderByte hdr) [0..<sizeof_HEADER]"

definition bytes_of_Data :: "Data list \<Rightarrow> mem_byte list" where
  "bytes_of_Data vs = concat (map (\<lambda>v. map (DataByte v) [0..<sizeof_T]) vs)"

text \<open>
  What a call can end with other than its result: an exception (\<open>std::runtime_error\<close>
  or any other) that leaves the call, together with the state in which it leaves the
  object the method was called on, or an access outside an allocation, which the C++
  code does not check (undefined behaviour there, an explicit outcome here).
\<close>

datatype exn = runtime_error | other_exception

datatype 's failure =
  Thrown exn 's | Out_of_bounds_read | Out_of_bounds_write | Indeterminate_header

text \<open>
  \<open>cudaMemcpyAsync(dst + off, src, count, ..)\<close>: nothing happens for \<open>count = 0\<close>;
  otherwise \<open>count\<close> bytes of \<open>src\<close> replace the bytes \<open>off .. off + count - 1\<close>
  of \<open>dst\<close>.
\<close>

definition cudaMemcpy ::
  "mem_byte list \<Rightarrow> nat \<Rightarrow> mem_byte list \<Rightarrow> nat \<Rightarrow> 's failure + mem_byte list" where
  "cudaMemcpy dst off src count =
     (if count = 0 then Inr dst
      else if length src < count then Inl Out_of_bounds_read
      else if length dst < off + count then Inl Out_of_bounds_write
      else Inr (take off dst @ take count src @ drop (off + count) dst))"


section \<open>Components of the compressor\<close>

text \<open>
  The predictor, sparse reducer and codec classes the compressor is bound to
  (\<open>BINDING::PREDICTOR\<close>, \<open>SPREDUCER\<close>, \<open>CODEC\<close>, \<open>FALLBACK_CODEC\<close>) and the helper
  \<open>ConfigHelper::get_npart\<close> are declared outside the sources at hand; the compressor
  is parameterised by them. A method returns its outputs or the exception it throws.
  \<^item> \<open>predictor_construct uncompressed eb radius\<close> returns the contents of the buffer
    \<open>uncompressed\<close> after the call, the anchor array and the quant codes;
    \<open>get_anchor_len()\<close> is the length of the anchor array.
  \<^item> \<open>spreducer_gather in\<close> receives the \<open>in_len\<close> elements it is asked to compact
    and returns the sparse blob (of \<open>out_len\<close> bytes).
  \<^item> \<open>codec_encode in in_len booklen sublen pardeg\<close> returns the encoded blob.
  \<^item> \<open>spreducer_scatter in out\<close> returns the contents of \<open>out\<close> after the call;
    \<open>codec_decode in\<close> returns the decoded quant codes;
    \<open>predictor_reconstruct anchor errctrl eb radius xdata\<close> returns the contents of
    \<open>xdata\<close> after the call.
\<close>

record components =
  predictor_get_data_len :: nat
  predictor_get_quant_len :: nat
  predictor_construct :: "Data list \<Rightarrow> real \<Rightarrow> int \<Rightarrow> exn + (Data list \<times> Data list \<times> ErrCtrl list)"
  predictor_reconstruct ::
    "mem_byte list \<Rightarrow> ErrCtrl list \<Rightarrow> real \<Rightarrow> int \<Rightarrow> Data list \<Rightarrow> exn + Data list"
  spreducer_gather :: "Data list \<Rightarrow> exn + mem_byte list"
  spreducer_scatter :: "mem_byte list \<Rightarrow> Data list \<Rightarrow> exn + Data list"
  codec_encode :: "ErrCtrl list \<Rightarrow> nat \<Rightarrow> int \<Rightarrow> nat \<Rightarrow> int \<Rightarrow> exn + mem_byte list"
  codec_decode :: "mem_byte list \<Rightarrow> exn + ErrCtrl list"
  fb_codec_encode :: "ErrCtrl list \<Rightarrow> nat \<Rightarrow> int \<Rightarrow> nat \<Rightarrow> int \<Rightarrow> exn + mem_byte list"
  fb_codec_decode :: "mem_byte list \<Rightarrow> exn + ErrCtrl list"
  get_npart :: "nat \<Rightarrow> int \<Rightarrow> nat"

text \<open>
  Modelled from the spec: \<open>Reinterpret1DTo2D::get_square_size\<close> is not part of the
  sources at hand; the dense outlier array is viewed as an \<open>m \<times> m\<close> square with
  \<open>m = ceil(sqrt(N))\<close>. The least \<open>m\<close> with \<open>N \<le> m * m\<close> is found by counting up.
\<close>

function square_size_from :: "nat \<Rightarrow> nat \<Rightarrow> nat" where
  "square_size_from len m = (if len \<le> m * m then m else square_size_from len (Suc m))"
  by pat_completeness auto
termination
proof (relation "measure (\<lambda>(len, m). len - m)")
  show "wf (measure (\<lambda>(len, m). len - m))" by simp
next
  fix len m :: nat
  assume "\<not> len \<le> m * m"
  then have "m * m < len" by simp
  with le_square [of m] have "m < len" by (rule le_less_trans)
  then show "((len, Suc m), (len, m)) \<in> measure (\<lambda>(len, m). len - m)" by simp
qed

definition get_square_size :: "nat \<Rightarrow> nat" where
  "get_square_size len = square_size_from len 0"


text \<open>
  The reconstruct branch of the same driver chooses the decompressor from the caller's
  context:
  \<^verbatim>\<open>
    if (ctx->huff_nbyte == 4) {
        Decompressor<Data, QuantTrait<2>::type, HuffTrait<4>::type, float> cuszd(ctx);
        cuszd.decompress();
    }
    else if (ctx->huff_nbyte == 8) {
        Decompressor<Data, QuantTrait<2>::type, HuffTrait<4>::type, float> cuszd(ctx);
        cuszd.decompress();
    }
  \<close>
  The result is the Huffman type of the decompressor that runs, if any.
\<close>

datatype HuffTrait = HuffTrait_4 | HuffTrait_8


section \<open>The compressor \<open>DefaultPathCompressor\<close>\<close>

text \<open>
  The state of a compressor object: the two flags, the header, the data size, the
  reserved output buffer, and (as a record of what happened) the calls made to the
  workspace allocation, encode and decode methods of the components, in order; the
  call of \<open>gather\<close> is recorded with the length \<open>in_len\<close> it is given.
\<close>

datatype call =
    Predictor_allocate_workspace | SpReducer_allocate_workspace
  | Codec_allocate_workspace | FbCodec_allocate_workspace
  | Predictor_construct | SpReducer_gather nat | Codec_encode | FbCodec_encode
  | SpReducer_scatter | Codec_decode | FbCodec_decode | Predictor_reconstruct

record compressor =
  use_fallback_codec :: bool
  fallback_codec_allocated :: bool
  header :: cuszHEADER
  data_size :: "32 word \<times> 32 word \<times> 32 word"
  d_reserved_compressed :: "mem_byte list"
  call_log :: "call list"

definition log_call :: "call \<Rightarrow> compressor \<Rightarrow> compressor" where
  "log_call c st = st\<lparr>call_log := call_log st @ [c]\<rparr>"

text \<open>
  \<open>allocate_workspace(cfg_radius, cfg_pardeg, density_factor, codec_config)\<close>: the
  predictor and the sparse reducer are allocated, then the codecs selected by the bits
  of \<open>codec_config\<close> (an exception if none is set), then the reserved output buffer of
  \<open>get_data_len() * sizeof(T) / 2\<close> bytes.
\<close>

definition allocate_workspace ::
  "components \<Rightarrow> compressor \<Rightarrow> int \<Rightarrow> int \<Rightarrow> int \<Rightarrow> 32 word
     \<Rightarrow> compressor failure + compressor" where
  "allocate_workspace comps st cfg_radius cfg_pardeg density_factor codec_config =
     (let st1 = log_call SpReducer_allocate_workspace (log_call Predictor_allocate_workspace st)
      in if codec_config = 0 then Inl (Thrown runtime_error st1)
         else
           let st2 = (if bit codec_config 0 then log_call Codec_allocate_workspace st1 else st1);
               st3 = (if bit codec_config 1
                      then (log_call FbCodec_allocate_workspace st2)\<lparr>fallback_codec_allocated := True\<rparr>
                      else st2)
           in Inr (st3\<lparr>d_reserved_compressed :=
                      replicate (predictor_get_data_len comps * sizeof_T div 2) Uninit\<rparr>))"

text \<open>
  The lambda \<open>encode_with_fallback_codec\<close> of \<open>compress\<close>: set
  \<open>use_fallback_codec\<close>, allocate the 8-byte codec if it is not allocated yet, encode
  with it. An exception of the encoder leaves the call with the flag set.
\<close>

definition encode_with_fallback_codec ::
  "components \<Rightarrow> compressor \<Rightarrow> ErrCtrl list \<Rightarrow> nat \<Rightarrow> int \<Rightarrow> nat \<Rightarrow> int
     \<Rightarrow> compressor failure + (compressor \<times> mem_byte list)" where
  "encode_with_fallback_codec comps st d_errctrl errctrl_len radius sublen pardeg =
     (let st1 = st\<lparr>use_fallback_codec := True\<rparr>;
          st2 = (if \<not> fallback_codec_allocated st1
                 then (log_call FbCodec_allocate_workspace st1)\<lparr>fallback_codec_allocated := True\<rparr>
                 else st1);
          st3 = log_call FbCodec_encode st2
      in case fb_codec_encode comps d_errctrl errctrl_len (radius * 2) sublen pardeg of
           Inl e \<Rightarrow> Inl (Thrown e st3)
         | Inr d_codec_out \<Rightarrow> Inr (st3, d_codec_out))"

text \<open>
  The lambda \<open>codec_do_with_exception\<close>: unless the fallback is forced, try the
  4-byte codec and, on \<open>std::runtime_error\<close>, switch to the fallback codec; any other
  exception propagates.
\<close>

definition codec_do_with_exception ::
  "components \<Rightarrow> compressor \<Rightarrow> bool \<Rightarrow> ErrCtrl list \<Rightarrow> nat \<Rightarrow> int \<Rightarrow> nat \<Rightarrow> int
     \<Rightarrow> compressor failure + (compressor \<times> mem_byte list)" where
  "codec_do_with_exception comps st codec_force_fallback d_errctrl errctrl_len radius sublen pardeg =
     (if \<not> codec_force_fallback
      then case codec_encode comps d_errctrl errctrl_len (radius * 2) sublen pardeg of
             Inr d_codec_out \<Rightarrow> Inr (log_call Codec_encode st, d_codec_out)
           | Inl runtime_error \<Rightarrow>
               encode_with_fallback_codec comps (log_call Codec_encode st)
                 d_errctrl errctrl_len radius sublen pardeg
           | Inl e \<Rightarrow> Inl (Thrown e (log_call Codec_encode st))
      else encode_with_fallback_codec comps st d_errctrl errctrl_len radius sublen pardeg)"

text \<open>The lambda \<open>update_header\<close>.\<close>

definition update_header :: "compressor \<Rightarrow> real \<Rightarrow> int \<Rightarrow> int \<Rightarrow> compressor" where
  "update_header st eb radius pardeg =
     st\<lparr>header := (header st)\<lparr>
           h_x := fst (data_size st),
           h_y := fst (snd (data_size st)),
           h_z := snd (snd (data_size st)),
           h_radius := radius,
           h_vle_pardeg := pardeg,
           h_eb := eb,
           h_byte_vle := (if use_fallback_codec st then 8 else 4)\<rparr>\<rparr>"

text \<open>
  The entry table of \<open>subfile_collect\<close>:
  \<^verbatim>\<open>
    header.entry[0] = 0;
    for (auto i = 1; i < HEADER::END + 1; i++) { header.entry[i] = nbyte[i - 1]; }
    for (auto i = 1; i < HEADER::END + 1; i++) { header.entry[i] += header.entry[i - 1]; }
  \<close>
  in 32-bit unsigned arithmetic.
\<close>

definition fill_entries :: "(nat \<Rightarrow> 32 word) \<Rightarrow> (nat \<Rightarrow> 32 word) \<Rightarrow> (nat \<Rightarrow> 32 word)" where
  "fill_entries entry nbyte =
     (let entry0 = entry(0 := 0);
          entry1 = fold (\<lambda>i e. e(i := nbyte (i - 1))) [1..<HEADER_END + 1] entry0
      in fold (\<lambda>i e. e(i := e i + e (i - 1))) [1..<HEADER_END + 1] entry1)"

text \<open>
  The lambda \<open>subfile_collect\<close>: sizes of the subfiles (truncated to \<open>uint32_t\<close>), the
  entry table, the copy of the header to the start of the reserved buffer and the copies
  of the three subfiles to their entries (macro \<open>D2D_CPY\<close>).
\<close>

definition subfile_collect ::
  "compressor \<Rightarrow> Data list \<Rightarrow> mem_byte list \<Rightarrow> mem_byte list \<Rightarrow> compressor failure + compressor" where
  "subfile_collect st d_anchor d_codec_out d_spfmt =
     (let nbyte = (\<lambda>_. 0)(HEADER_HEADER := 128,
                          HEADER_ANCHOR := of_nat (sizeof_T * length d_anchor),
                          HEADER_VLE := of_nat (length d_codec_out),
                          HEADER_SPFMT := of_nat (length d_spfmt)) :: nat \<Rightarrow> 32 word;
          hdr = (header st)\<lparr>h_header_nbyte := of_nat sizeof_HEADER\<rparr>;
          hdr = hdr\<lparr>h_entry := fill_entries (h_entry hdr) nbyte\<rparr>;
          D2D_CPY = (\<lambda>dst src FIELD.
                       cudaMemcpy dst (unat (h_entry hdr FIELD)) src (unat (nbyte FIELD)))
      in case cudaMemcpy (d_reserved_compressed st) 0 (header_image hdr) sizeof_HEADER of
           Inl e \<Rightarrow> Inl e
         | Inr r0 \<Rightarrow>
        (case D2D_CPY r0 (bytes_of_Data d_anchor) HEADER_ANCHOR of
           Inl e \<Rightarrow> Inl e
         | Inr r1 \<Rightarrow>
        (case D2D_CPY r1 d_codec_out HEADER_VLE of
           Inl e \<Rightarrow> Inl e
         | Inr r2 \<Rightarrow>
        (case D2D_CPY r2 d_spfmt HEADER_SPFMT of
           Inl e \<Rightarrow> Inl e
         | Inr r3 \<Rightarrow> Inr (st\<lparr>header := hdr, d_reserved_compressed := r3\<rparr>)))))"

text \<open>
  \<open>compress(uncompressed, eb, radius, pardeg, codecs_in_use, nz_density_factor,
  compressed, compressed_len, codec_force_fallback, ..)\<close>. The predictor is handed
  \<open>uncompressed\<close> and reads its \<open>get_data_len()\<close> samples; the sparse reducer is
  handed the same pointer with \<open>in_len = m * m\<close> and reads that many elements. The
  result is the state of the compressor (whose reserved buffer is the output
  \<open>compressed\<close>), the contents of the caller's buffer \<open>uncompressed\<close> after the call,
  and \<open>compressed_len\<close>.
\<close>

definition compress ::
  "components \<Rightarrow> compressor \<Rightarrow> Data list \<Rightarrow> real \<Rightarrow> int \<Rightarrow> int \<Rightarrow> 32 word \<Rightarrow> int \<Rightarrow> bool
     \<Rightarrow> compressor failure + (compressor \<times> Data list \<times> nat)" where
  "compress comps st uncompressed eb radius pardeg codecs_in_use nz_density_factor codec_force_fallback =
     (let st = st\<lparr>header := (header st)\<lparr>h_codecs_in_use := codecs_in_use,
                                            h_nz_density_factor := nz_density_factor\<rparr>\<rparr>;
          data_len = predictor_get_data_len comps;
          m = get_square_size data_len;
          errctrl_len = predictor_get_quant_len comps;
          sublen = get_npart comps data_len pardeg
      in if length uncompressed < data_len then Inl Out_of_bounds_read
         else
        (let st = log_call Predictor_construct st
         in case predictor_construct comps uncompressed eb radius of
              Inl e \<Rightarrow> Inl (Thrown e st)
            | Inr (uncompressed, d_anchor, d_errctrl) \<Rightarrow>
           if length uncompressed < m * m then Inl Out_of_bounds_read
           else
          (let st = log_call (SpReducer_gather (m * m)) st
           in case spreducer_gather comps (take (m * m) uncompressed) of
                Inl e \<Rightarrow> Inl (Thrown e st)
              | Inr d_spfmt \<Rightarrow>
             (case codec_do_with_exception comps st codec_force_fallback
                      d_errctrl errctrl_len radius sublen pardeg of
                Inl e \<Rightarrow> Inl e
              | Inr (st, d_codec_out) \<Rightarrow>
               (case subfile_collect (update_header st eb radius pardeg)
                       d_anchor d_codec_out d_spfmt of
                  Inl e \<Rightarrow> Inl e
                | Inr st \<Rightarrow>
                    Inr (st\<lparr>use_fallback_codec := False\<rparr>, uncompressed,
                         file_size (header st)))))))"



section \<open>Archives and example components\<close>

text \<open>
  The total size of an archive with the given subfiles, and the condition that it fits
  the reserved buffer of a compressor and the 32-bit entry table.
\<close>

definition archive_nbyte :: "Data list \<Rightarrow> mem_byte list \<Rightarrow> mem_byte list \<Rightarrow> nat" where
  "archive_nbyte d_anchor d_codec_out d_spfmt =
     128 + sizeof_T * length d_anchor + length d_codec_out + length d_spfmt"

definition archive_fits ::
  "compressor \<Rightarrow> Data list \<Rightarrow> mem_byte list \<Rightarrow> mem_byte list \<Rightarrow> bool" where
  "archive_fits st d_anchor d_codec_out d_spfmt =
     (archive_nbyte d_anchor d_codec_out d_spfmt \<le> length (d_reserved_compressed st) \<and>
      archive_nbyte d_anchor d_codec_out d_spfmt < 2 ^ 32)"

text \<open>
  The entry table as cumulative offsets of a 128-byte header, an anchor subfile of
  \<open>a\<close> bytes, a Huffman subfile of \<open>v\<close> bytes and a sparse subfile of \<open>p\<close>
  bytes, in 32-bit arithmetic.
\<close>

definition entries_of :: "(nat \<Rightarrow> 32 word) \<Rightarrow> nat \<Rightarrow> nat \<Rightarrow> nat \<Rightarrow> (nat \<Rightarrow> 32 word)" where
  "entries_of entry a v p =
     entry(0 := 0, 1 := 128, 2 := 128 + of_nat a, 3 := 128 + of_nat a + of_nat v,
           4 := 128 + of_nat a + of_nat v + of_nat p)"

section \<open>The predictor's contract\<close>


section \<open>Components with prescribed outputs\<close>

text \<open>
  The compressor depends on the sparse reducer and the codecs only through what they
  return. For running it on concrete inputs: components on \<open>N\<close> samples with a given
  predictor, whose 4-byte codec returns \<open>r4\<close>, whose 8-byte codec returns \<open>r8\<close> and
  whose sparse reducer returns the blob \<open>spfmt\<close>; on decompression the codecs return
  the quant codes \<open>q4\<close> and \<open>q8\<close>, the scatter and the reconstruction leave the
  output buffer as it is.
\<close>

definition example_components ::
  "nat \<Rightarrow> (Data list \<Rightarrow> real \<Rightarrow> int \<Rightarrow> exn + (Data list \<times> Data list \<times> ErrCtrl list))
     \<Rightarrow> exn + mem_byte list \<Rightarrow> exn + mem_byte list \<Rightarrow> mem_byte list
     \<Rightarrow> ErrCtrl list \<Rightarrow> ErrCtrl list \<Rightarrow> components" where
  "example_components N constr r4 r8 spfmt q4 q8 =
     \<lparr>predictor_get_data_len = N,
      predictor_get_quant_len = N,
      predictor_construct = constr,
      predictor_reconstruct = (\<lambda>d_anchor d_errctrl eb radius xdata. Inr xdata),
      spreducer_gather = (\<lambda>d_in. Inr spfmt),
      spreducer_scatter = (\<lambda>d_in d_out. Inr d_out),
      codec_encode = (\<lambda>d_in in_len booklen sublen pardeg. r4),
      codec_decode = (\<lambda>d_in. Inr q4),
      fb_codec_encode = (\<lambda>d_in in_len booklen sublen pardeg. r8),
      fb_codec_decode = (\<lambda>d_in. Inr q8),
      get_npart = (\<lambda>len pardeg. (len + nat pardeg - 1) div nat pardeg)\<rparr>"

definition example_header :: cuszHEADER where
  "example_header =
     \<lparr>h_x = 0, h_y = 0, h_z = 0, h_radius = 0, h_vle_pardeg = 0, h_eb = 0, h_byte_vle = 0,
      h_codecs_in_use = 0, h_nz_density_factor = 0, h_header_nbyte = 0, h_entry = (\<lambda>_. 0)\<rparr>"

text \<open>A compressor object with a reserved buffer of the given size.\<close>

definition example_compressor :: "nat \<Rightarrow> compressor" where
  "example_compressor reserved =
     \<lparr>use_fallback_codec = False, fallback_codec_allocated = False, header = example_header,
      data_size = (4, 1, 1), d_reserved_compressed = replicate reserved Uninit, call_log = []\<rparr>"

text \<open>
  The inflation rule as the specification words it: a call either reports a compressed
  length of at most \<open>N * sizeof(T) / 2\<close> or fails with an error, rather than writing
  past the reserved buffer.
\<close>

definition spec_inflation_guard ::
  "nat \<Rightarrow> compressor failure + (compressor \<times> Data list \<times> nat) \<Rightarrow> bool" where
  "spec_inflation_guard N r =
     (case r of
        Inr (st', uncompressed', compressed_len) \<Rightarrow> compressed_len \<le> N * sizeof_T div 2
      | Inl e \<Rightarrow> e \<noteq> Out_of_bounds_write)"

text \<open>
  Components on four samples whose predictor leaves the input buffer as it is and
  returns the quant codes 5, 4, 4, 4; the codecs, when they succeed, store the four
  codes one byte each.
\<close>

definition example_four_components :: "exn + mem_byte list \<Rightarrow> components" where
  "example_four_components r4 =
     example_components 4 (\<lambda>u eb radius. Inr (u, [], [5, 4, 4, 4]))
       r4 (Inr [Raw 5, Raw 4, Raw 4, Raw 4]) [] [5, 4, 4, 4] [5, 4, 4, 4]"

text \<open>
  Components on four samples whose two codecs both fail with \<open>std::runtime_error\<close>
  when the code book has more than 1024 entries, and store the four codes one byte each
  otherwise.
\<close>

definition example_booklen_components :: components where
  "example_booklen_components =
     (example_four_components (Inr []))
       \<lparr>codec_encode := (\<lambda>d_in in_len booklen sublen pardeg.
                          if 1024 < booklen then Inl runtime_error
                          else Inr [Raw 5, Raw 4, Raw 4, Raw 4]),
        fb_codec_encode := (\<lambda>d_in in_len booklen sublen pardeg.
                          if 1024 < booklen then Inl runtime_error
                          else Inr [Raw 5, Raw 4, Raw 4, Raw 4])\<rparr>"



section \<open>Binary32 rounding\<close>

lemma normal_exp_bounds:
  "1 \<le> y \<Longrightarrow> y < 2 ^ (n + 1) \<Longrightarrow>
     2 powi (normal_exp n y) \<le> y \<and> y < 2 powi (normal_exp n y + 1) \<and> 0 \<le> normal_exp n y"
proof (induction n arbitrary: y)
  case 0
  then show ?case by simp
next
  case (Suc n)
  show ?case
  proof (cases "y < 2")
    case True
    with Suc.prems show ?thesis by simp
  next
    case False
    then have a: "1 \<le> y / 2" by simp
    have b: "y / 2 < 2 ^ (n + 1)" using Suc.prems(2) by simp
    from Suc.IH[OF a b] have ih: "2 powi (normal_exp n (y / 2)) \<le> y / 2"
      "y / 2 < 2 powi (normal_exp n (y / 2) + 1)" "0 \<le> normal_exp n (y / 2)" by blast+
    have p1: "(2::real) powi (1 + normal_exp n (y / 2)) = 2 * 2 powi (normal_exp n (y / 2))"
      by (simp add: power_int_add)
    have p2: "(2::real) powi (2 + normal_exp n (y / 2)) = 2 * 2 powi (normal_exp n (y / 2) + 1)"
      by (simp add: power_int_add)
    show ?thesis using False ih by (simp add: p1 p2)
  qed
qed

lemma powi_exp_unique:
  fixes y :: real
  assumes "2 powi a \<le> y" "y < 2 powi (a + 1)" "2 powi b \<le> y" "y < 2 powi (b + 1)"
  shows "a = b"
proof (rule ccontr)
  assume "a \<noteq> b"
  then consider "a + 1 \<le> b" | "b + 1 \<le> a" by linarith
  then show False
  proof cases
    case 1
    then have "(2::real) powi (a + 1) \<le> 2 powi b" by (intro power_int_increasing) auto
    with assms show False by linarith
  next
    case 2
    then have "(2::real) powi (b + 1) \<le> 2 powi a" by (intro power_int_increasing) auto
    with assms show False by linarith
  qed
qed

lemma ulp_exp_subnormal: "\<bar>x\<bar> < 2 powi (- 126) \<Longrightarrow> ulp_exp x = - 149"
  by (simp add: ulp_exp_def)

lemma ulp_exp_normal:
  assumes "2 powi e \<le> \<bar>x\<bar>" "\<bar>x\<bar> < 2 powi (e + 1)" "- 126 \<le> e" "e \<le> 128"
  shows "ulp_exp x = e - 23"
proof -
  let ?y = "\<bar>x\<bar> * 2 ^ 126"
  have p126: "(2::real) ^ 126 = 2 powi 126" by simp
  have "(2::real) powi (- 126) \<le> 2 powi e" using assms(3) by (intro power_int_increasing) auto
  with assms(1) have nsub: "\<not> \<bar>x\<bar> < 2 powi (- 126)" by linarith
  have lo: "2 powi (e + 126) \<le> ?y"
    using assms(1) unfolding p126 by (simp add: power_int_add)
  have hi: "?y < 2 powi (e + 126 + 1)"
  proof -
    have "?y < 2 powi (e + 1) * 2 powi 126" using assms(2) unfolding p126 by simp
    also have "\<dots> = 2 powi (e + 126 + 1)" by (simp add: power_int_add)
    finally show ?thesis .
  qed
  have "(1::real) = 2 powi 0" by simp
  also have "\<dots> \<le> 2 powi (e + 126)" using assms(3) by (intro power_int_increasing) auto
  finally have one: "1 \<le> ?y" using lo by linarith
  have "(2::real) powi (e + 126 + 1) \<le> 2 powi 255" using assms(4) by (intro power_int_increasing) auto
  then have "?y < 2 powi 255" using hi by linarith
  then have lt: "?y < 2 ^ (254 + 1)" by simp
  from normal_exp_bounds[OF one lt]
  have "2 powi (normal_exp 254 ?y) \<le> ?y" "?y < 2 powi (normal_exp 254 ?y + 1)" by blast+
  from powi_exp_unique[OF this lo hi] have "normal_exp 254 ?y = e + 126" .
  then show ?thesis using nsub by (simp add: ulp_exp_def)
qed

lemma round_ne_int [simp]: "round_ne (of_int n) = n"
  by (simp add: round_ne_def)

lemma round_ne_err: "\<bar>of_int (round_ne x) - x\<bar> \<le> 1 / 2"
proof -
  have "of_int \<lfloor>x\<rfloor> \<le> x" "x < of_int \<lfloor>x\<rfloor> + 1" by linarith+
  then show ?thesis by (auto simp: round_ne_def Let_def)
qed

lemma round_ne_0 [simp]: "round_ne 0 = 0"
  using round_ne_int[of 0] by simp

lemma fl32_0 [simp]: "fl32 0 = 0"
  by (simp add: fl32_def)

lemma fl32_eval:
  assumes "2 powi e \<le> \<bar>x\<bar>" "\<bar>x\<bar> < 2 powi (e + 1)" "- 126 \<le> e" "e \<le> 128"
  shows "fl32 x = of_int (round_ne (x / 2 powi (e - 23))) * 2 powi (e - 23)"
  by (simp add: fl32_def ulp_exp_normal[OF assms])

lemma fl32_eval_subnormal:
  assumes "\<bar>x\<bar> < 2 powi (- 126)"
  shows "fl32 x = of_int (round_ne (x / 2 powi (- 149))) * 2 powi (- 149)"
  by (simp add: fl32_def ulp_exp_subnormal[OF assms])


lemma normal_exp_lower:
  "1 \<le> y \<Longrightarrow> 2 powi (normal_exp n y) \<le> y \<and> 0 \<le> normal_exp n y \<and> normal_exp n y \<le> int n"
proof (induction n arbitrary: y)
  case 0
  then show ?case by simp
next
  case (Suc n)
  show ?case
  proof (cases "y < 2")
    case True
    with Suc.prems show ?thesis by simp
  next
    case False
    then have a: "1 \<le> y / 2" by simp
    from Suc.IH[OF a] have ih: "2 powi (normal_exp n (y / 2)) \<le> y / 2"
      "0 \<le> normal_exp n (y / 2)" "normal_exp n (y / 2) \<le> int n" by blast+
    have p1: "(2::real) powi (1 + normal_exp n (y / 2)) = 2 * 2 powi (normal_exp n (y / 2))"
      by (simp add: power_int_add)
    show ?thesis using False ih by (simp add: p1)
  qed
qed

lemma normal_exp_ge:
  "2 ^ k \<le> y \<Longrightarrow> k \<le> n \<Longrightarrow> int k \<le> normal_exp n y"
proof (induction n arbitrary: y k)
  case 0
  then show ?case by simp
next
  case (Suc n)
  show ?case
  proof (cases k)
    case 0
    have "1 \<le> y" using Suc.prems(1) 0 by simp
    from normal_exp_lower[OF this, of "Suc n"] show ?thesis using 0 by simp
  next
    case (Suc j)
    have "(2::real) ^ 1 \<le> 2 ^ k" unfolding Suc by (intro power_increasing) auto
    then have y2: "\<not> y < 2" using Suc.prems(1) by simp
    have "2 ^ j \<le> y / 2" using Suc.prems(1) Suc by simp
    moreover have "j \<le> n" using Suc.prems(2) Suc by simp
    ultimately have "int j \<le> normal_exp n (y / 2)" by (rule Suc.IH)
    then show ?thesis using y2 Suc by simp
  qed
qed

text \<open>The exponent of the last place, for values outside the subnormal range.\<close>

lemma ulp_exp_lower:
  assumes "2 powi (- 126) \<le> \<bar>x\<bar>"
  shows "2 powi (ulp_exp x + 23) \<le> \<bar>x\<bar>" "- 149 \<le> ulp_exp x" "ulp_exp x \<le> 105"
proof -
  define P :: real where "P = 2 ^ 126"
  define y where "y = \<bar>x\<bar> * P"
  define N where "N = normal_exp 254 y"
  have P: "P = 2 powi 126" "0 < P" by (simp_all add: P_def)
  have PI: "2 powi (- 126) * P = 1" unfolding P(1) by (simp flip: power_int_add)
  have "2 powi (- 126) * P \<le> y" unfolding y_def using assms P(2) by simp
  then have one: "1 \<le> y" using PI by simp
  from normal_exp_lower[OF one, of 254]
  have ne: "2 powi N \<le> y" "0 \<le> N" "N \<le> 254" unfolding N_def by simp_all
  have ue: "ulp_exp x = N - 149" using assms by (simp add: ulp_exp_def N_def y_def P_def)
  have "(2::real) powi (ulp_exp x + 23) * P = 2 powi (N - 126) * 2 powi 126"
    unfolding ue P(1) by simp
  also have "\<dots> = 2 powi N" using power_int_add[of "2::real" "N - 126" 126] by simp
  also have "\<dots> \<le> \<bar>x\<bar> * P" using ne(1) unfolding y_def .
  finally show "2 powi (ulp_exp x + 23) \<le> \<bar>x\<bar>" using P(2) by simp
  show "- 149 \<le> ulp_exp x" "ulp_exp x \<le> 105" using ne ue by simp_all
qed

lemma ulp_exp_ge_149: "- 149 \<le> ulp_exp x"
  using ulp_exp_lower(2)[of x] ulp_exp_subnormal[of x] by (cases "\<bar>x\<bar> < 2 powi (- 126)") simp_all

lemma ulp_exp_upper:
  assumes "2 powi (- 126) \<le> \<bar>x\<bar>" "\<bar>x\<bar> < 2 ^ 129"
  shows "\<bar>x\<bar> < 2 powi (ulp_exp x + 24)"
proof -
  define P :: real where "P = 2 ^ 126"
  define y where "y = \<bar>x\<bar> * P"
  define N where "N = normal_exp 254 y"
  have P: "P = 2 powi 126" "0 < P" by (simp_all add: P_def)
  have PI: "2 powi (- 126) * P = 1" unfolding P(1) by (simp flip: power_int_add)
  have "2 powi (- 126) * P \<le> y" unfolding y_def using assms P(2) by simp
  then have one: "1 \<le> y" using PI by simp
  have "y < 2 ^ 129 * P" unfolding y_def using assms(2) P(2) by simp
  also have "\<dots> = 2 ^ (254 + 1)" unfolding P_def by simp
  finally have lt: "y < 2 ^ (254 + 1)" .
  from normal_exp_bounds[OF one lt] have hi: "y < 2 powi (N + 1)" unfolding N_def by blast
  have ue: "ulp_exp x = N - 149" using assms by (simp add: ulp_exp_def N_def y_def P_def)
  have "\<bar>x\<bar> * P < 2 powi (N + 1)" using hi unfolding y_def .
  also have "\<dots> = 2 powi (N - 125) * 2 powi 126"
    using power_int_add[of "2::real" "N - 125" 126] by (simp add: add.commute)
  also have "\<dots> = 2 powi (ulp_exp x + 24) * P" unfolding ue P(1) by simp
  finally show ?thesis using P(2) by simp
qed

lemma ulp_exp_large:
  assumes "2 ^ 24 \<le> \<bar>x\<bar>"
  shows "1 \<le> ulp_exp x"
proof -
  let ?y = "\<bar>x\<bar> * 2 ^ 126"
  have "(2::real) powi (- 126) \<le> 2 powi 24" by (intro power_int_increasing) auto
  then have nsub: "\<not> \<bar>x\<bar> < 2 powi (- 126)" using assms by simp
  have "(2::real) ^ 150 = 2 ^ 24 * 2 ^ 126" by simp
  also have "\<dots> \<le> ?y" using assms by simp
  finally have "int 150 \<le> normal_exp 254 ?y" by (rule normal_exp_ge) simp
  then show ?thesis using nsub by (simp add: ulp_exp_def)
qed

subsection \<open>Rounding of integers\<close>

lemma fl32_int_exact:
  assumes "\<bar>n\<bar> \<le> 2 ^ 24"
  shows "fl32 (of_int n) = of_int n"
proof (cases "n = 0")
  case True
  then show ?thesis by simp
next
  case False
  define x :: real where "x = of_int n"
  define E where "E = ulp_exp x"
  have ax: "1 \<le> \<bar>x\<bar>" "\<bar>x\<bar> \<le> 2 ^ 24" using False assms unfolding x_def
    by (simp_all flip: of_int_abs)
  have "(2::real) powi (- 126) \<le> 2 powi 0" by (intro power_int_increasing) auto
  then have nsub: "2 powi (- 126) \<le> \<bar>x\<bar>" using ax(1) by simp
  have lo: "2 powi (E + 23) \<le> \<bar>x\<bar>" and E149: "- 149 \<le> E"
    using ulp_exp_lower[OF nsub] unfolding E_def by simp_all
  have "\<exists>k. x / 2 powi E = of_int k"
  proof (cases "E \<le> 0")
    case True
    have "x / 2 powi E = x * 2 powi (- E)" by (simp add: power_int_minus field_simps)
    also have "\<dots> = of_int (n * 2 ^ nat (- E))" using True by (simp add: x_def power_int_def)
    finally show ?thesis by blast
  next
    case False
    have "(2::real) powi (E + 23) \<le> 2 powi 24" using lo ax(2) by simp
    then have "E + 23 \<le> 24" by (rule power_int_le_imp_le_exp[rotated]) auto
    with False have E1: "E = 1" by simp
    then have "2 ^ 24 \<le> \<bar>x\<bar>" using lo by simp
    with ax(2) have "\<bar>x\<bar> = 2 ^ 24" by simp
    then have "x = 2 ^ 24 \<or> x = - (2 ^ 24)" by (auto simp: abs_if split: if_splits)
    then show ?thesis
    proof
      assume "x = 2 ^ 24"
      then have "x / 2 powi E = of_int (2 ^ 23)" by (simp add: E1)
      then show ?thesis by blast
    next
      assume "x = - (2 ^ 24)"
      then have "x / 2 powi E = of_int (- (2 ^ 23))" by (simp add: E1)
      then show ?thesis by blast
    qed
  qed
  then obtain k where k: "x / 2 powi E = of_int k" by blast
  have "fl32 x = of_int (round_ne (x / 2 powi E)) * 2 powi E" by (simp add: fl32_def E_def)
  also have "\<dots> = x / 2 powi E * 2 powi E" unfolding k by simp
  also have "\<dots> = x" by simp
  finally show ?thesis unfolding x_def .
qed

lemma fl32_int_large:
  assumes "2 ^ 24 \<le> \<bar>n\<bar>"
  shows "\<exists>m. fl32 (of_int n) = of_int m \<and> m \<noteq> 0"
proof -
  define x :: real where "x = of_int n"
  define E where "E = ulp_exp x"
  have ax: "2 ^ 24 \<le> \<bar>x\<bar>" using assms unfolding x_def
    by (simp flip: of_int_abs)
  have E1: "1 \<le> E" using ulp_exp_large[OF ax] unfolding E_def .
  have "(2::real) powi (- 126) \<le> 2 powi 24" by (intro power_int_increasing) auto
  then have nsub: "2 powi (- 126) \<le> \<bar>x\<bar>" using ax by simp
  have lo: "2 powi (E + 23) \<le> \<bar>x\<bar>" using ulp_exp_lower(1)[OF nsub] unfolding E_def .
  define r where "r = round_ne (x / 2 powi E)"
  have "2 powi (E + 23) = 2 ^ 23 * (2::real) powi E" by (simp add: power_int_add)
  then have "2 ^ 23 \<le> \<bar>x\<bar> / 2 powi E" using lo by (simp add: field_simps)
  then have big: "2 ^ 23 \<le> \<bar>x / 2 powi E\<bar>" by simp
  have "\<bar>of_int r - x / 2 powi E\<bar> \<le> 1 / 2" unfolding r_def by (rule round_ne_err)
  have "r \<noteq> 0"
  proof
    assume "r = 0"
    with \<open>\<bar>of_int r - x / 2 powi E\<bar> \<le> 1 / 2\<close> have "\<bar>x / 2 powi E\<bar> \<le> 1 / 2" by simp
    moreover have "(1::real) \<le> 2 ^ 23" by simp
    ultimately show False using big by linarith
  qed
  have "fl32 x = of_int r * 2 powi E" by (simp add: fl32_def E_def r_def)
  also have "\<dots> = of_int (r * 2 ^ nat E)" using E1 by (simp add: power_int_def)
  finally have "fl32 x = of_int (r * 2 ^ nat E)" .
  moreover have "r * 2 ^ nat E \<noteq> 0" using \<open>r \<noteq> 0\<close> by simp
  ultimately show ?thesis unfolding x_def by blast
qed

lemma fl32_int_integral: "\<exists>m. fl32 (of_int n) = of_int m \<and> (m = 0 \<longleftrightarrow> n = 0)"
proof (cases "\<bar>n\<bar> \<le> 2 ^ 24")
  case True
  then show ?thesis using fl32_int_exact by blast
next
  case False
  then have "2 ^ 24 \<le> \<bar>n\<bar>" by simp
  from fl32_int_large[OF this] False show ?thesis by auto
qed

subsection \<open>Rounding error\<close>

lemma fl32_error:
  assumes "\<bar>x\<bar> < 2 ^ 129"
  shows "\<bar>fl32 x - x\<bar> \<le> \<bar>x\<bar> / 2 ^ 24 + 2 powi (- 150)"
proof -
  define E where "E = ulp_exp x"
  define q where "q = x / 2 powi E"
  have pos: "(0::real) < 2 powi E" by simp
  have "fl32 x - x = (of_int (round_ne q) - q) * 2 powi E"
    by (simp add: fl32_def E_def q_def algebra_simps)
  then have "\<bar>fl32 x - x\<bar> = \<bar>of_int (round_ne q) - q\<bar> * 2 powi E"
    by (simp add: abs_mult)
  also have "\<dots> \<le> 1 / 2 * 2 powi E"
    using round_ne_err[of q] by (intro mult_right_mono) auto
  finally have err: "\<bar>fl32 x - x\<bar> \<le> 2 powi E / 2" by simp
  show ?thesis
  proof (cases "\<bar>x\<bar> < 2 powi (- 126)")
    case True
    then have "E = - 149" unfolding E_def by (rule ulp_exp_subnormal)
    moreover have "(2::real) powi (- 149) / 2 = 2 powi (- 150)"
      by (simp add: power_int_minus)
    ultimately have "\<bar>fl32 x - x\<bar> \<le> 2 powi (- 150)" using err by simp
    moreover have "0 \<le> \<bar>x\<bar> / 2 ^ 24" by simp
    ultimately show ?thesis by linarith
  next
    case False
    then have nsub: "2 powi (- 126) \<le> \<bar>x\<bar>" by simp
    have lo: "2 powi (E + 23) \<le> \<bar>x\<bar>" using ulp_exp_lower(1)[OF nsub] unfolding E_def .
    have "(2::real) powi (E + 23) = 2 powi E * 2 ^ 23" by (simp add: power_int_add)
    then have "2 powi E / 2 \<le> \<bar>x\<bar> / 2 ^ 24" using lo by simp
    moreover have "(0::real) \<le> 2 powi (- 150)" by simp
    ultimately show ?thesis using err by linarith
  qed
qed


lemma fill_entries_eq:
  "fill_entries entry nbyte =
     entry(0 := 0, 1 := nbyte 0, 2 := nbyte 0 + nbyte 1, 3 := nbyte 0 + nbyte 1 + nbyte 2,
           4 := nbyte 0 + nbyte 1 + nbyte 2 + nbyte 3)"
proof -
  have l: "[1..<HEADER_END + 1] = [1, 2, 3, 4]"
    unfolding HEADER_END_def by code_simp
  show ?thesis
    unfolding fill_entries_def Let_def l
    by (simp add: fun_eq_iff add.assoc)
qed

lemma cudaMemcpy_ok:
  assumes "count \<le> length src" "off + count \<le> length dst"
  shows "\<exists>r. cudaMemcpy dst off src count = Inr r \<and> length r = length dst"
  using assms by (auto simp: cudaMemcpy_def)

lemma length_bytes_of_Data: "length (bytes_of_Data vs) = sizeof_T * length vs"
  by (induction vs) (simp_all add: bytes_of_Data_def)

lemma length_header_image: "length (header_image hdr) = sizeof_HEADER"
  by (simp add: header_image_def)


lemma cudaMemcpy_append:
  assumes "length pre = off" "off + length src \<le> length pre + length rest"
  shows "cudaMemcpy (pre @ rest) off src (length src) =
           (Inr (pre @ src @ drop (length src) rest) :: 's failure + mem_byte list)"
  using assms by (simp add: cudaMemcpy_def)

lemma unat_of_nat32: "n < 2 ^ 32 \<Longrightarrow> unat (of_nat n :: 32 word) = n"
  by (simp add: unat_of_nat)

lemma subfile_collect_ok:
  assumes "archive_fits st d_anchor d_codec_out d_spfmt"
  defines "hdr \<equiv> (header st)\<lparr>h_header_nbyte := 128,
              h_entry := entries_of (h_entry (header st)) (sizeof_T * length d_anchor)
                 (length d_codec_out) (length d_spfmt)\<rparr>"
  shows "subfile_collect st d_anchor d_codec_out d_spfmt =
           Inr (st\<lparr>header := hdr,
                    d_reserved_compressed :=
                      header_image hdr @ bytes_of_Data d_anchor @ d_codec_out @ d_spfmt @
                      drop (archive_nbyte d_anchor d_codec_out d_spfmt) (d_reserved_compressed st)\<rparr>)"
proof -
  define a where "a = sizeof_T * length d_anchor"
  define v where "v = length d_codec_out"
  define p where "p = length d_spfmt"
  define old where "old = d_reserved_compressed st"
  have tot: "128 + a + v + p \<le> length old" "128 + a + v + p < 2 ^ 32"
    using assms(1) by (simp_all add: archive_fits_def archive_nbyte_def a_def v_def p_def old_def)
  have ua: "unat (of_nat a :: 32 word) = a" and uv: "unat (of_nat v :: 32 word) = v"
    and up: "unat (of_nat p :: 32 word) = p"
    using tot(2) by (simp_all add: unat_of_nat32)
  have e2: "unat (128 + of_nat a :: 32 word) = 128 + a"
  proof -
    have "(128 + of_nat a :: 32 word) = of_nat (128 + a)" by simp
    then show ?thesis using tot(2) by (simp only: unat_of_nat32)
  qed
  have e3: "unat (128 + of_nat a + of_nat v :: 32 word) = 128 + a + v"
  proof -
    have "(128 + of_nat a + of_nat v :: 32 word) = of_nat (128 + a + v)" by simp
    then show ?thesis using tot(2) by (simp only: unat_of_nat32)
  qed
  have H: "length (header_image hdr) = 128"
    by (simp add: length_header_image sizeof_HEADER_def)
  have A: "length (bytes_of_Data d_anchor) = a"
    by (simp add: length_bytes_of_Data a_def)
  have c0: "cudaMemcpy old 0 (header_image hdr) sizeof_HEADER =
              (Inr (header_image hdr @ drop 128 old) :: compressor failure + mem_byte list)"
    using cudaMemcpy_append[where ?'s = compressor, of "[]" 0 "header_image hdr" old] tot(1) H
    by (simp add: sizeof_HEADER_def)
  have c1: "cudaMemcpy (header_image hdr @ drop 128 old) 128 (bytes_of_Data d_anchor) a =
              (Inr (header_image hdr @ bytes_of_Data d_anchor @ drop (128 + a) old)
                 :: compressor failure + mem_byte list)"
    using cudaMemcpy_append[where ?'s = compressor, of "header_image hdr" 128 "bytes_of_Data d_anchor" "drop 128 old"] tot(1) H A
    by (simp add: add.commute)
  have c2: "cudaMemcpy (header_image hdr @ bytes_of_Data d_anchor @ drop (128 + a) old) (128 + a) d_codec_out v =
              (Inr (header_image hdr @ bytes_of_Data d_anchor @ d_codec_out @ drop (128 + a + v) old)
                 :: compressor failure + mem_byte list)"
    using cudaMemcpy_append[where ?'s = compressor, of "header_image hdr @ bytes_of_Data d_anchor" "128 + a" d_codec_out "drop (128 + a) old"]
      tot(1) H A
    by (simp add: add.commute v_def)
  have c3: "cudaMemcpy (header_image hdr @ bytes_of_Data d_anchor @ d_codec_out @ drop (128 + a + v) old)
               (128 + a + v) d_spfmt p =
              (Inr (header_image hdr @ bytes_of_Data d_anchor @ d_codec_out @ d_spfmt @
                    drop (128 + a + v + p) old) :: compressor failure + mem_byte list)"
    using cudaMemcpy_append[where ?'s = compressor, of "header_image hdr @ bytes_of_Data d_anchor @ d_codec_out" "128 + a + v" d_spfmt
        "drop (128 + a + v) old"]
      tot(1) H A
    by (simp add: add.commute v_def p_def)
  have hd: "(header st)\<lparr>h_header_nbyte := of_nat sizeof_HEADER,
               h_entry := fill_entries (h_entry ((header st)\<lparr>h_header_nbyte := of_nat sizeof_HEADER\<rparr>))
                  ((\<lambda>_. 0)(HEADER_HEADER := 128, HEADER_ANCHOR := of_nat a,
                            HEADER_VLE := of_nat v, HEADER_SPFMT := of_nat p))\<rparr> = hdr"
    by (simp add: hdr_def fill_entries_eq entries_of_def HEADER_HEADER_def HEADER_ANCHOR_def
        HEADER_VLE_def HEADER_SPFMT_def sizeof_HEADER_def a_def v_def p_def)
  have ent: "unat (h_entry hdr HEADER_ANCHOR) = 128" "unat (h_entry hdr HEADER_VLE) = 128 + a"
    "unat (h_entry hdr HEADER_SPFMT) = 128 + a + v"
    using e2 e3
    by (simp_all add: hdr_def entries_of_def HEADER_ANCHOR_def HEADER_VLE_def HEADER_SPFMT_def
        a_def v_def p_def)
  define nbyte :: "nat \<Rightarrow> 32 word" where
    "nbyte = (\<lambda>_. 0)(HEADER_HEADER := 128, HEADER_ANCHOR := of_nat a,
                       HEADER_VLE := of_nat v, HEADER_SPFMT := of_nat p)"
  have nb: "unat (nbyte HEADER_ANCHOR) = a" "unat (nbyte HEADER_VLE) = v" "unat (nbyte HEADER_SPFMT) = p"
    using ua uv up
    by (simp_all add: nbyte_def HEADER_HEADER_def HEADER_ANCHOR_def HEADER_VLE_def HEADER_SPFMT_def)
  show ?thesis
    unfolding subfile_collect_def Let_def
    apply (fold a_def v_def p_def old_def)
    apply (fold nbyte_def)
    apply (simp only: hd[folded nbyte_def] ent nb c0 c1 c2 c3 sum.case)
    apply (simp add: archive_nbyte_def a_def[symmetric] v_def[symmetric] p_def[symmetric])
    done
qed


lemma codec_do_no_fallback:
  assumes "\<not> force" "codec_encode comps q n (r * 2) sl pd = Inr out"
  shows "codec_do_with_exception comps st force q n r sl pd = Inr (log_call Codec_encode st, out)"
  using assms by (simp add: codec_do_with_exception_def)

lemma codec_do_fallback:
  assumes "\<not> force" "codec_encode comps q n (r * 2) sl pd = Inl runtime_error"
    "fb_codec_encode comps q n (r * 2) sl pd = Inr out"
  shows "codec_do_with_exception comps st force q n r sl pd =
           Inr (log_call FbCodec_encode
                  (if fallback_codec_allocated st
                   then (log_call Codec_encode st)\<lparr>use_fallback_codec := True\<rparr>
                   else (log_call FbCodec_allocate_workspace
                           ((log_call Codec_encode st)\<lparr>use_fallback_codec := True\<rparr>))
                          \<lparr>fallback_codec_allocated := True\<rparr>), out)"
  using assms
  by (simp add: codec_do_with_exception_def encode_with_fallback_codec_def Let_def log_call_def)

lemma codec_do_fallback_fails:
  assumes "\<not> force" "codec_encode comps q n (r * 2) sl pd = Inl runtime_error"
    "fb_codec_encode comps q n (r * 2) sl pd = Inl e"
  shows "codec_do_with_exception comps st force q n r sl pd =
           Inl (Thrown e
                 (log_call FbCodec_encode
                    (if fallback_codec_allocated st
                     then (log_call Codec_encode st)\<lparr>use_fallback_codec := True\<rparr>
                     else (log_call FbCodec_allocate_workspace
                             ((log_call Codec_encode st)\<lparr>use_fallback_codec := True\<rparr>))
                            \<lparr>fallback_codec_allocated := True\<rparr>)))"
  using assms
  by (simp add: codec_do_with_exception_def encode_with_fallback_codec_def Let_def log_call_def)

lemma archive_fits_reserved:
  "d_reserved_compressed st' = d_reserved_compressed st \<Longrightarrow>
     archive_fits st' a v p = archive_fits st a v p"
  by (simp add: archive_fits_def)

lemma compress_ok:
  assumes "predictor_get_data_len comps \<le> length uncompressed"
    "predictor_construct comps uncompressed eb radius = Inr (u1, d_anchor, d_errctrl)"
    "get_square_size (predictor_get_data_len comps) * get_square_size (predictor_get_data_len comps)
       \<le> length u1"
    "spreducer_gather comps (take (get_square_size (predictor_get_data_len comps) *
        get_square_size (predictor_get_data_len comps)) u1) = Inr d_spfmt"
    "codec_do_with_exception comps
       (log_call (SpReducer_gather (get_square_size (predictor_get_data_len comps) *
            get_square_size (predictor_get_data_len comps))) (log_call Predictor_construct
          (st\<lparr>header := (header st)\<lparr>h_codecs_in_use := codecs_in_use,
                                      h_nz_density_factor := nz_density_factor\<rparr>\<rparr>)))
       force d_errctrl (predictor_get_quant_len comps) radius
       (get_npart comps (predictor_get_data_len comps) pardeg) pardeg = Inr (stc, d_codec_out)"
    "archive_fits stc d_anchor d_codec_out d_spfmt"
  defines "stu \<equiv> update_header stc eb radius pardeg"
  defines "hdr \<equiv> (header stu)\<lparr>h_header_nbyte := 128,
              h_entry := entries_of (h_entry (header stu)) (sizeof_T * length d_anchor)
                 (length d_codec_out) (length d_spfmt)\<rparr>"
  shows "compress comps st uncompressed eb radius pardeg codecs_in_use nz_density_factor force =
           Inr (stu\<lparr>use_fallback_codec := False, header := hdr,
                    d_reserved_compressed :=
                      header_image hdr @ bytes_of_Data d_anchor @ d_codec_out @ d_spfmt @
                      drop (archive_nbyte d_anchor d_codec_out d_spfmt) (d_reserved_compressed stu)\<rparr>,
                u1, archive_nbyte d_anchor d_codec_out d_spfmt)"
proof -
  have fits: "archive_fits stu d_anchor d_codec_out d_spfmt"
    using assms(6) by (simp add: stu_def update_header_def archive_fits_def)
  have tot: "archive_nbyte d_anchor d_codec_out d_spfmt < 2 ^ 32"
    using assms(6) by (simp add: archive_fits_def)
  have "(128 + of_nat (sizeof_T * length d_anchor) + of_nat (length d_codec_out) + of_nat (length d_spfmt) :: 32 word)
          = of_nat (archive_nbyte d_anchor d_codec_out d_spfmt)"
    by (simp add: archive_nbyte_def)
  then have fs: "file_size hdr = archive_nbyte d_anchor d_codec_out d_spfmt"
    using tot by (simp add: file_size_def hdr_def entries_of_def HEADER_END_def unat_of_nat32)
  show ?thesis
    unfolding compress_def Let_def
    using assms(1-5) subfile_collect_ok[OF fits] fs
    by (simp add: stu_def[symmetric] hdr_def[symmetric])
qed

lemma codec_do_state_independent:
  assumes "codec_do_with_exception comps st force q n r sl pd = Inr (stc, v)"
  shows "\<exists>stc2. codec_do_with_exception comps st2 force q n r sl pd = Inr (stc2, v) \<and>
            d_reserved_compressed stc2 = d_reserved_compressed st2"
  using assms
  by (auto simp: codec_do_with_exception_def encode_with_fallback_codec_def Let_def log_call_def
      split: sum.splits exn.splits if_splits)

lemma codec_do_reserved:
  assumes "codec_do_with_exception comps st force q n r sl pd = Inr (stc, v)"
  shows "d_reserved_compressed stc = d_reserved_compressed st"
  using assms
  by (auto simp: codec_do_with_exception_def encode_with_fallback_codec_def Let_def log_call_def
      split: sum.splits exn.splits if_splits)


lemma entries_of_unat:
  assumes "128 + a + v + p < (2::nat) ^ 32"
  shows "unat (entries_of e a v p 0) = 0" "unat (entries_of e a v p 1) = 128"
    "unat (entries_of e a v p 2) = 128 + a" "unat (entries_of e a v p 3) = 128 + a + v"
    "unat (entries_of e a v p 4) = 128 + a + v + p"
proof -
  have "(128 + of_nat a :: 32 word) = of_nat (128 + a)"
    "(128 + of_nat a + of_nat v :: 32 word) = of_nat (128 + a + v)"
    "(128 + of_nat a + of_nat v + of_nat p :: 32 word) = of_nat (128 + a + v + p)"
    by simp_all
  then have "unat (128 + of_nat a :: 32 word) = 128 + a"
    "unat (128 + of_nat a + of_nat v :: 32 word) = 128 + a + v"
    "unat (128 + of_nat a + of_nat v + of_nat p :: 32 word) = 128 + a + v + p"
    using assms by (simp_all only: unat_of_nat32)
  then show "unat (entries_of e a v p 0) = 0" "unat (entries_of e a v p 1) = 128"
    "unat (entries_of e a v p 2) = 128 + a" "unat (entries_of e a v p 3) = 128 + a + v"
    "unat (entries_of e a v p 4) = 128 + a + v + p"
    by (simp_all add: entries_of_def)
qed

lemma entries_of_mono:
  assumes "128 + a + v + p < (2::nat) ^ 32" "k < 4"
  shows "entries_of e a v p k \<le> entries_of e a v p (Suc k)"
proof -
  from assms(2) consider "k = 0" | "k = 1" | "k = 2" | "k = 3" by linarith
  then show ?thesis
  proof cases
    case 1 then show ?thesis
      using entries_of_unat[OF assms(1), of e] by (simp add: word_le_nat_alt)
  next
    case 2 then show ?thesis
      using entries_of_unat[OF assms(1), of e] by (simp add: word_le_nat_alt numeral_2_eq_2)
  next
    case 3 then show ?thesis
      using entries_of_unat[OF assms(1), of e] by (simp add: word_le_nat_alt numeral_3_eq_3)
  next
    case 4 then show ?thesis
      using entries_of_unat[OF assms(1), of e]
      by (simp add: word_le_nat_alt eval_nat_numeral)
  qed
qed

lemma compress_ok_result:
  assumes "predictor_get_data_len comps \<le> length uncompressed"
    "predictor_construct comps uncompressed eb radius = Inr (u1, d_anchor, d_errctrl)"
    "get_square_size (predictor_get_data_len comps) * get_square_size (predictor_get_data_len comps)
       \<le> length u1"
    "spreducer_gather comps (take (get_square_size (predictor_get_data_len comps) *
        get_square_size (predictor_get_data_len comps)) u1) = Inr d_spfmt"
    "codec_do_with_exception comps st force d_errctrl (predictor_get_quant_len comps) radius
       (get_npart comps (predictor_get_data_len comps) pardeg) pardeg = Inr (stc, d_codec_out)"
    "archive_fits st d_anchor d_codec_out d_spfmt"
  shows "\<exists>st'. compress comps st uncompressed eb radius pardeg codecs_in_use nz_density_factor force =
             Inr (st', u1, archive_nbyte d_anchor d_codec_out d_spfmt) \<and>
           h_entry (header st') = entries_of (h_entry (header st)) (sizeof_T * length d_anchor)
                 (length d_codec_out) (length d_spfmt) \<and>
           take (archive_nbyte d_anchor d_codec_out d_spfmt) (d_reserved_compressed st') =
             header_image (header st') @ bytes_of_Data d_anchor @ d_codec_out @ d_spfmt \<and>
           length (d_reserved_compressed st') = length (d_reserved_compressed st)"
proof -
  define st0 where "st0 = log_call (SpReducer_gather (get_square_size (predictor_get_data_len comps) *
            get_square_size (predictor_get_data_len comps))) (log_call Predictor_construct
          (st\<lparr>header := (header st)\<lparr>h_codecs_in_use := codecs_in_use,
                                      h_nz_density_factor := nz_density_factor\<rparr>\<rparr>))"
  obtain stc2 where c: "codec_do_with_exception comps st0 force d_errctrl (predictor_get_quant_len comps) radius
       (get_npart comps (predictor_get_data_len comps) pardeg) pardeg = Inr (stc2, d_codec_out)"
    and r: "d_reserved_compressed stc2 = d_reserved_compressed st0"
    using codec_do_state_independent[OF assms(5)] by blast
  have h0: "h_entry (header stc2) = h_entry (header st)"
    using c
    by (auto simp: codec_do_with_exception_def encode_with_fallback_codec_def Let_def log_call_def st0_def
      split: sum.splits exn.splits if_splits)
  have r0: "d_reserved_compressed st0 = d_reserved_compressed st"
    by (simp add: st0_def log_call_def)
  have f: "archive_fits stc2 d_anchor d_codec_out d_spfmt"
    using assms(6) r r0 by (simp add: archive_fits_def)
  have tot: "archive_nbyte d_anchor d_codec_out d_spfmt \<le> length (d_reserved_compressed st)"
    using assms(6) by (simp add: archive_fits_def)
  have lenimg: "length (header_image h) = 128" for h
    by (simp add: header_image_def sizeof_HEADER_def)
  note ok = compress_ok[OF assms(1-4) c[unfolded st0_def] f]
  show ?thesis
    unfolding ok using h0 r r0 tot
    by (simp add: update_header_def archive_nbyte_def lenimg length_bytes_of_Data)
qed


declare square_size_from.simps [simp del]

lemma square_size_from_ge: "m \<le> square_size_from len m"
proof (induction len m rule: square_size_from.induct)
  case (1 len m)
  show ?case
  proof (cases "len \<le> m * m")
    case True
    then show ?thesis by (subst square_size_from.simps) simp
  next
    case False
    with 1 have "Suc m \<le> square_size_from len (Suc m)" by simp
    with False show ?thesis by (subst square_size_from.simps) simp
  qed
qed

lemma square_size_from_sq: "len \<le> square_size_from len m * square_size_from len m"
proof (induction len m rule: square_size_from.induct)
  case (1 len m)
  show ?case
  proof (cases "len \<le> m * m")
    case True
    then show ?thesis by (subst (1 2) square_size_from.simps) simp
  next
    case False
    with 1 show ?thesis by (subst (1 2) square_size_from.simps) simp
  qed
qed

lemma square_size_from_least:
  "m \<le> k \<Longrightarrow> k < square_size_from len m \<Longrightarrow> k * k < len"
proof (induction len m rule: square_size_from.induct)
  case (1 len m)
  show ?case
  proof (cases "len \<le> m * m")
    case True
    then have "square_size_from len m = m" by (subst square_size_from.simps) simp
    with 1(2,3) show ?thesis by simp
  next
    case False
    then have eq: "square_size_from len m = square_size_from len (Suc m)"
      by (subst square_size_from.simps) simp
    show ?thesis
    proof (cases "k = m")
      case True
      with False show ?thesis by simp
    next
      case False
      with 1(2) have "Suc m \<le> k" by simp
      with 1(1)[OF \<open>\<not> len \<le> m * m\<close>] 1(3) eq show ?thesis by simp
    qed
  qed
qed

lemma get_square_size_sq: "len \<le> get_square_size len * get_square_size len"
  by (simp add: get_square_size_def square_size_from_sq)

lemma get_square_size_least: "k < get_square_size len \<Longrightarrow> k * k < len"
  unfolding get_square_size_def by (rule square_size_from_least) simp_all

lemma get_square_size_eqI:
  assumes "len \<le> k * k" "k = 0 \<or> (k - 1) * (k - 1) < len"
  shows "get_square_size len = k"
proof (rule antisym)
  show "get_square_size len \<le> k"
  proof (rule ccontr)
    assume "\<not> get_square_size len \<le> k"
    then have "k < get_square_size len" by simp
    then have "k * k < len" by (rule get_square_size_least)
    with assms(1) show False by simp
  qed
next
  show "k \<le> get_square_size len"
  proof (rule ccontr)
    assume "\<not> k \<le> get_square_size len"
    then have "get_square_size len < k" by simp
    then have lt: "get_square_size len \<le> k - 1" and kpos: "k \<noteq> 0" by arith+
    have "len \<le> get_square_size len * get_square_size len" by (rule get_square_size_sq)
    also have "\<dots> \<le> (k - 1) * (k - 1)" by (rule mult_le_mono[OF lt lt])
    finally show False using assms(2) kpos by simp
  qed
qed



lemma get_square_size_big: "get_square_size 2147483712 = 46341"
  by (rule get_square_size_eqI) simp_all


lemma get_square_size_4: "get_square_size 4 = 2"
  by (rule get_square_size_eqI) simp_all

lemma get_square_size_1: "get_square_size 1 = 1"
  by (rule get_square_size_eqI) simp_all

lemma get_square_size_large: "get_square_size 2147483712 = 46341"
  by (rule get_square_size_eqI) simp_all

lemma subfile_collect_header:
  assumes "subfile_collect st d_anchor d_codec_out d_spfmt = Inr st'"
  shows "header st' = (header st)\<lparr>h_header_nbyte := 128,
              h_entry := entries_of (h_entry (header st)) (sizeof_T * length d_anchor)
                 (length d_codec_out) (length d_spfmt)\<rparr>"
proof -
  have hd: "(header st)\<lparr>h_header_nbyte := of_nat sizeof_HEADER,
               h_entry := fill_entries (h_entry ((header st)\<lparr>h_header_nbyte := of_nat sizeof_HEADER\<rparr>))
                  ((\<lambda>_. 0)(HEADER_HEADER := 128, HEADER_ANCHOR := of_nat (sizeof_T * length d_anchor),
                            HEADER_VLE := of_nat (length d_codec_out),
                            HEADER_SPFMT := of_nat (length d_spfmt)))\<rparr> =
            (header st)\<lparr>h_header_nbyte := 128,
              h_entry := entries_of (h_entry (header st)) (sizeof_T * length d_anchor)
                 (length d_codec_out) (length d_spfmt)\<rparr>"
    by (simp add: fill_entries_eq entries_of_def HEADER_HEADER_def HEADER_ANCHOR_def
        HEADER_VLE_def HEADER_SPFMT_def sizeof_HEADER_def)
  show ?thesis
    using assms unfolding subfile_collect_def Let_def hd
    by (auto split: sum.splits)
qed

lemma subfile_collect_chain:
  fixes st :: compressor
  assumes "archive_nbyte d_anchor d_codec_out d_spfmt < 2 ^ 32"
  defines "hdr \<equiv> (header st)\<lparr>h_header_nbyte := 128,
              h_entry := entries_of (h_entry (header st)) (sizeof_T * length d_anchor)
                 (length d_codec_out) (length d_spfmt)\<rparr>"
  shows "subfile_collect st d_anchor d_codec_out d_spfmt =
    (case cudaMemcpy (d_reserved_compressed st) 0 (header_image hdr) 128 of
       Inl e \<Rightarrow> Inl e
     | Inr r0 \<Rightarrow>
    (case cudaMemcpy r0 128 (bytes_of_Data d_anchor) (sizeof_T * length d_anchor) of
       Inl e \<Rightarrow> Inl e
     | Inr r1 \<Rightarrow>
    (case cudaMemcpy r1 (128 + sizeof_T * length d_anchor) d_codec_out (length d_codec_out) of
       Inl e \<Rightarrow> Inl e
     | Inr r2 \<Rightarrow>
    (case cudaMemcpy r2 (128 + sizeof_T * length d_anchor + length d_codec_out) d_spfmt (length d_spfmt) of
       Inl e \<Rightarrow> Inl e
     | Inr r3 \<Rightarrow> Inr (st\<lparr>header := hdr, d_reserved_compressed := r3\<rparr>)))))"
proof -
  define a where "a = sizeof_T * length d_anchor"
  define v where "v = length d_codec_out"
  define p where "p = length d_spfmt"
  have tot: "128 + a + v + p < 2 ^ 32"
    using assms(1) by (simp add: archive_nbyte_def a_def v_def p_def)
  have ua: "unat (of_nat a :: 32 word) = a" and uv: "unat (of_nat v :: 32 word) = v"
    and up: "unat (of_nat p :: 32 word) = p"
    using tot by (simp_all add: unat_of_nat32)
  define nbyte :: "nat \<Rightarrow> 32 word" where
    "nbyte = (\<lambda>_. 0)(HEADER_HEADER := 128, HEADER_ANCHOR := of_nat a,
                       HEADER_VLE := of_nat v, HEADER_SPFMT := of_nat p)"
  have nb: "unat (nbyte HEADER_ANCHOR) = a" "unat (nbyte HEADER_VLE) = v" "unat (nbyte HEADER_SPFMT) = p"
    using ua uv up
    by (simp_all add: nbyte_def HEADER_HEADER_def HEADER_ANCHOR_def HEADER_VLE_def HEADER_SPFMT_def)
  have hd: "(header st)\<lparr>h_header_nbyte := of_nat sizeof_HEADER,
               h_entry := fill_entries (h_entry ((header st)\<lparr>h_header_nbyte := of_nat sizeof_HEADER\<rparr>))
                  nbyte\<rparr> = hdr"
    by (simp add: hdr_def fill_entries_eq entries_of_def HEADER_HEADER_def HEADER_ANCHOR_def
        HEADER_VLE_def HEADER_SPFMT_def sizeof_HEADER_def a_def v_def p_def nbyte_def)
  have ent: "unat (h_entry hdr HEADER_ANCHOR) = 128" "unat (h_entry hdr HEADER_VLE) = 128 + a"
    "unat (h_entry hdr HEADER_SPFMT) = 128 + a + v"
    using entries_of_unat[OF tot, of "h_entry (header st)"]
    by (simp_all add: hdr_def HEADER_ANCHOR_def HEADER_VLE_def HEADER_SPFMT_def
        a_def v_def p_def)
  show ?thesis
    unfolding subfile_collect_def Let_def
    apply (fold a_def v_def p_def)
    apply (fold nbyte_def)
    apply (simp only: hd ent nb)
    apply (simp add: sizeof_HEADER_def)
    done
qed

lemma cudaMemcpy_length:
  "cudaMemcpy dst off src n = Inr r \<Longrightarrow> length r = length dst"
  by (auto simp: cudaMemcpy_def split: if_splits)

lemma cudaMemcpy_Inr_bound:
  "cudaMemcpy dst off src n = Inr r \<Longrightarrow> n \<noteq> 0 \<Longrightarrow> off + n \<le> length dst"
  by (auto simp: cudaMemcpy_def split: if_splits)

lemma cudaMemcpy_Inl_exact:
  "cudaMemcpy dst off src n = Inl e \<Longrightarrow> n = length src \<Longrightarrow> e = Out_of_bounds_write"
  by (auto simp: cudaMemcpy_def split: if_splits)

lemma subfile_collect_failure:
  assumes "archive_nbyte d_anchor d_codec_out d_spfmt < 2 ^ 32"
    "subfile_collect st d_anchor d_codec_out d_spfmt = Inl e"
  shows "e = Out_of_bounds_write"
proof -
  have H: "128 = length (header_image h)" for h
    by (simp add: header_image_def sizeof_HEADER_def)
  have A: "sizeof_T * length d_anchor = length (bytes_of_Data d_anchor)"
    by (simp add: length_bytes_of_Data)
  show ?thesis
    using assms(2) unfolding subfile_collect_chain[OF assms(1)]
    by (auto split: sum.splits dest!: cudaMemcpy_Inl_exact simp: H[symmetric] A[symmetric])
qed

lemma subfile_collect_Inr_bound:
  assumes "archive_nbyte d_anchor d_codec_out d_spfmt < 2 ^ 32"
    "subfile_collect st d_anchor d_codec_out d_spfmt = Inr st'"
  shows "archive_nbyte d_anchor d_codec_out d_spfmt \<le> length (d_reserved_compressed st)"
proof -
  from assms(2) obtain r0 r1 r2 r3 hdr where
    c0: "cudaMemcpy (d_reserved_compressed st) 0 (header_image hdr) 128 =
          (Inr r0 :: compressor failure + mem_byte list)" and
    c1: "cudaMemcpy r0 128 (bytes_of_Data d_anchor) (sizeof_T * length d_anchor) =
          (Inr r1 :: compressor failure + mem_byte list)" and
    c2: "cudaMemcpy r1 (128 + sizeof_T * length d_anchor) d_codec_out (length d_codec_out) =
          (Inr r2 :: compressor failure + mem_byte list)" and
    c3: "cudaMemcpy r2 (128 + sizeof_T * length d_anchor + length d_codec_out) d_spfmt (length d_spfmt) =
          (Inr r3 :: compressor failure + mem_byte list)"
    unfolding subfile_collect_chain[OF assms(1)]
    by (auto split: sum.splits)
  define cap where "cap = length (d_reserved_compressed st)"
  have l: "length r0 = cap" "length r1 = cap" "length r2 = cap"
    using cudaMemcpy_length[OF c0] cudaMemcpy_length[OF c1] cudaMemcpy_length[OF c2]
    by (simp_all add: cap_def)
  have b0: "128 \<le> cap" using cudaMemcpy_Inr_bound[OF c0] by (simp add: cap_def)
  have b1: "sizeof_T * length d_anchor \<noteq> 0 \<Longrightarrow> 128 + sizeof_T * length d_anchor \<le> cap"
    using cudaMemcpy_Inr_bound[OF c1] l by simp
  have b2: "length d_codec_out \<noteq> 0 \<Longrightarrow> 128 + sizeof_T * length d_anchor + length d_codec_out \<le> cap"
    using cudaMemcpy_Inr_bound[OF c2] l by simp
  have b3: "length d_spfmt \<noteq> 0 \<Longrightarrow>
      128 + sizeof_T * length d_anchor + length d_codec_out + length d_spfmt \<le> cap"
    using cudaMemcpy_Inr_bound[OF c3] l by simp
  define a where "a = sizeof_T * length d_anchor"
  define v where "v = length d_codec_out"
  define p where "p = length d_spfmt"
  have "128 + a + v + p \<le> cap"
    using b0 b1 b2 b3 unfolding a_def[symmetric] v_def[symmetric] p_def[symmetric]
    by (cases "p = 0"; cases "v = 0"; cases "a = 0") simp_all
  then show ?thesis
    by (simp add: archive_nbyte_def cap_def a_def v_def p_def)
qed

lemma subfile_collect_overflow:
  assumes "archive_nbyte d_anchor d_codec_out d_spfmt < 2 ^ 32"
    "length (d_reserved_compressed st) < archive_nbyte d_anchor d_codec_out d_spfmt"
  shows "subfile_collect st d_anchor d_codec_out d_spfmt = Inl Out_of_bounds_write"
proof (cases "subfile_collect st d_anchor d_codec_out d_spfmt")
  case (Inl e)
  then show ?thesis using subfile_collect_failure[OF assms(1) Inl] by simp
next
  case (Inr st')
  then show ?thesis using subfile_collect_Inr_bound[OF assms(1) Inr] assms(2) by simp
qed


lemma compress_overflow:
  assumes "predictor_get_data_len comps \<le> length uncompressed"
    "predictor_construct comps uncompressed eb radius = Inr (u1, d_anchor, d_errctrl)"
    "get_square_size (predictor_get_data_len comps) * get_square_size (predictor_get_data_len comps)
       \<le> length u1"
    "spreducer_gather comps (take (get_square_size (predictor_get_data_len comps) *
        get_square_size (predictor_get_data_len comps)) u1) = Inr d_spfmt"
    "codec_do_with_exception comps st force d_errctrl (predictor_get_quant_len comps) radius
       (get_npart comps (predictor_get_data_len comps) pardeg) pardeg = Inr (stc, d_codec_out)"
    "archive_nbyte d_anchor d_codec_out d_spfmt < 2 ^ 32"
    "length (d_reserved_compressed st) < archive_nbyte d_anchor d_codec_out d_spfmt"
  shows "compress comps st uncompressed eb radius pardeg codecs_in_use nz_density_factor force =
           Inl Out_of_bounds_write"
proof -
  define st0 where "st0 = log_call (SpReducer_gather (get_square_size (predictor_get_data_len comps) *
            get_square_size (predictor_get_data_len comps))) (log_call Predictor_construct
          (st\<lparr>header := (header st)\<lparr>h_codecs_in_use := codecs_in_use,
                                      h_nz_density_factor := nz_density_factor\<rparr>\<rparr>))"
  obtain stc2 where c: "codec_do_with_exception comps st0 force d_errctrl (predictor_get_quant_len comps) radius
       (get_npart comps (predictor_get_data_len comps) pardeg) pardeg = Inr (stc2, d_codec_out)"
    and r: "d_reserved_compressed stc2 = d_reserved_compressed st0"
    using codec_do_state_independent[OF assms(5)] by blast
  have r0: "d_reserved_compressed st0 = d_reserved_compressed st"
    by (simp add: st0_def log_call_def)
  have "length (d_reserved_compressed (update_header stc2 eb radius pardeg))
          < archive_nbyte d_anchor d_codec_out d_spfmt"
    using assms(7) r r0 by (simp add: update_header_def)
  then have "subfile_collect (update_header stc2 eb radius pardeg) d_anchor d_codec_out d_spfmt =
               Inl Out_of_bounds_write"
    by (rule subfile_collect_overflow[OF assms(6)])
  then show ?thesis
    unfolding compress_def Let_def
    using assms(1-4) c by (simp add: st0_def[symmetric])
qed

lemma get_square_size_128: "get_square_size 128 = 12"
  by (rule get_square_size_eqI) simp_all









lemma compress_codec_paths:
  fixes comps st uncompressed eb radius pardeg codecs_in_use nz_density_factor
  defines "N \<equiv> predictor_get_data_len comps"
  defines "m \<equiv> get_square_size N"
  defines "run \<equiv> compress comps st uncompressed eb radius pardeg codecs_in_use nz_density_factor False"
  assumes "N \<le> length uncompressed"
    "predictor_construct comps uncompressed eb radius = Inr (u1, d_anchor, d_errctrl)"
    "m * m \<le> length u1"
    "spreducer_gather comps (take (m * m) u1) = Inr d_spfmt"
    "codec_encode comps d_errctrl (predictor_get_quant_len comps) (radius * 2)
       (get_npart comps N pardeg) pardeg = r4"
    "fb_codec_encode comps d_errctrl (predictor_get_quant_len comps) (radius * 2)
       (get_npart comps N pardeg) pardeg = r8"
  shows "(r4 = Inl runtime_error \<and> r8 = Inr out8 \<and> archive_fits st d_anchor out8 d_spfmt \<longrightarrow>
           (\<exists>st'. run = Inr (st', u1, archive_nbyte d_anchor out8 d_spfmt) \<and>
              h_byte_vle (header st') = 8 \<and>
              call_log st' = call_log st @ [Predictor_construct, SpReducer_gather (m * m), Codec_encode] @
                 (if fallback_codec_allocated st then [] else [FbCodec_allocate_workspace]) @
                 [FbCodec_encode] \<and>
              fallback_codec_allocated st' \<and> \<not> use_fallback_codec st' \<and>
              take (archive_nbyte d_anchor out8 d_spfmt) (d_reserved_compressed st') =
                 header_image (header st') @ bytes_of_Data d_anchor @ out8 @ d_spfmt)) \<and>
         (r4 = Inl runtime_error \<and> r8 = Inl e \<longrightarrow>
           (\<exists>st'. run = Inl (Thrown e st') \<and> use_fallback_codec st' \<and> fallback_codec_allocated st' \<and>
              d_reserved_compressed st' = d_reserved_compressed st \<and>
              call_log st' = call_log st @ [Predictor_construct, SpReducer_gather (m * m), Codec_encode] @
                 (if fallback_codec_allocated st then [] else [FbCodec_allocate_workspace]) @
                 [FbCodec_encode])) \<and>
         (r4 = Inr out4 \<and> archive_fits st d_anchor out4 d_spfmt \<longrightarrow>
           (\<exists>st'. run = Inr (st', u1, archive_nbyte d_anchor out4 d_spfmt) \<and>
              h_byte_vle (header st') = (if use_fallback_codec st then 8 else 4) \<and>
              call_log st' = call_log st @ [Predictor_construct, SpReducer_gather (m * m), Codec_encode] \<and>
              fallback_codec_allocated st' = fallback_codec_allocated st \<and> \<not> use_fallback_codec st' \<and>
              take (archive_nbyte d_anchor out4 d_spfmt) (d_reserved_compressed st') =
                 header_image (header st') @ bytes_of_Data d_anchor @ out4 @ d_spfmt))"
proof (intro conjI impI)
  define st0 where "st0 = log_call (SpReducer_gather (m * m)) (log_call Predictor_construct
          (st\<lparr>header := (header st)\<lparr>h_codecs_in_use := codecs_in_use,
                                      h_nz_density_factor := nz_density_factor\<rparr>\<rparr>))"
  have lenimg: "length (header_image h) = 128" for h
    by (simp add: header_image_def sizeof_HEADER_def)
  {
    assume a: "r4 = Inl runtime_error \<and> r8 = Inr out8 \<and> archive_fits st d_anchor out8 d_spfmt"
    define stc where "stc = log_call FbCodec_encode
                  (if fallback_codec_allocated st0
                   then (log_call Codec_encode st0)\<lparr>use_fallback_codec := True\<rparr>
                   else (log_call FbCodec_allocate_workspace
                           ((log_call Codec_encode st0)\<lparr>use_fallback_codec := True\<rparr>))
                          \<lparr>fallback_codec_allocated := True\<rparr>)"
    have c: "codec_do_with_exception comps st0 False d_errctrl (predictor_get_quant_len comps) radius
               (get_npart comps N pardeg) pardeg = Inr (stc, out8)"
      unfolding stc_def using assms(8,9) a by (intro codec_do_fallback) simp_all
    have f: "archive_fits stc d_anchor out8 d_spfmt"
      using a by (simp add: stc_def st0_def archive_fits_def log_call_def)
    note ok = compress_ok[OF assms(4)[unfolded N_def] assms(5) assms(6)[unfolded m_def N_def]
        assms(7)[unfolded m_def N_def] c[unfolded st0_def m_def N_def] f]
    show "\<exists>st'. run = Inr (st', u1, archive_nbyte d_anchor out8 d_spfmt) \<and>
              h_byte_vle (header st') = 8 \<and>
              call_log st' = call_log st @ [Predictor_construct, SpReducer_gather (m * m), Codec_encode] @
                 (if fallback_codec_allocated st then [] else [FbCodec_allocate_workspace]) @
                 [FbCodec_encode] \<and>
              fallback_codec_allocated st' \<and> \<not> use_fallback_codec st' \<and>
              take (archive_nbyte d_anchor out8 d_spfmt) (d_reserved_compressed st') =
                 header_image (header st') @ bytes_of_Data d_anchor @ out8 @ d_spfmt"
      unfolding run_def ok
      by (simp add: stc_def st0_def update_header_def log_call_def archive_nbyte_def
          lenimg length_bytes_of_Data m_def N_def)
  }
  {
    assume a: "r4 = Inl runtime_error \<and> r8 = Inl e"
    define stf where "stf = log_call FbCodec_encode
                    (if fallback_codec_allocated st0
                     then (log_call Codec_encode st0)\<lparr>use_fallback_codec := True\<rparr>
                     else (log_call FbCodec_allocate_workspace
                             ((log_call Codec_encode st0)\<lparr>use_fallback_codec := True\<rparr>))
                            \<lparr>fallback_codec_allocated := True\<rparr>)"
    have c: "codec_do_with_exception comps st0 False d_errctrl (predictor_get_quant_len comps) radius
               (get_npart comps N pardeg) pardeg = Inl (Thrown e stf)"
      unfolding stf_def using assms(8,9) a by (intro codec_do_fallback_fails) simp_all
    have "run = Inl (Thrown e stf)"
      unfolding run_def compress_def Let_def
      using assms(4-7) c
      by (simp add: N_def[symmetric] m_def[symmetric] st0_def[symmetric])
    moreover have "use_fallback_codec stf" "fallback_codec_allocated stf"
      "d_reserved_compressed stf = d_reserved_compressed st"
      "call_log stf = call_log st @ [Predictor_construct, SpReducer_gather (m * m), Codec_encode] @
                 (if fallback_codec_allocated st then [] else [FbCodec_allocate_workspace]) @
                 [FbCodec_encode]"
      by (simp_all add: stf_def st0_def log_call_def m_def N_def)
    ultimately show "\<exists>st'. run = Inl (Thrown e st') \<and> use_fallback_codec st' \<and>
              fallback_codec_allocated st' \<and>
              d_reserved_compressed st' = d_reserved_compressed st \<and>
              call_log st' = call_log st @ [Predictor_construct, SpReducer_gather (m * m), Codec_encode] @
                 (if fallback_codec_allocated st then [] else [FbCodec_allocate_workspace]) @
                 [FbCodec_encode]"
      by blast
  }
  {
    assume a: "r4 = Inr out4 \<and> archive_fits st d_anchor out4 d_spfmt"
    have c: "codec_do_with_exception comps st0 False d_errctrl (predictor_get_quant_len comps) radius
               (get_npart comps N pardeg) pardeg = Inr (log_call Codec_encode st0, out4)"
      using assms(8) a by (intro codec_do_no_fallback) simp_all
    have f: "archive_fits (log_call Codec_encode st0) d_anchor out4 d_spfmt"
      using a by (simp add: st0_def archive_fits_def log_call_def)
    note ok = compress_ok[OF assms(4)[unfolded N_def] assms(5) assms(6)[unfolded m_def N_def]
        assms(7)[unfolded m_def N_def] c[unfolded st0_def m_def N_def] f[unfolded st0_def m_def N_def]]
    show "\<exists>st'. run = Inr (st', u1, archive_nbyte d_anchor out4 d_spfmt) \<and>
              h_byte_vle (header st') = (if use_fallback_codec st then 8 else 4) \<and>
              call_log st' = call_log st @ [Predictor_construct, SpReducer_gather (m * m), Codec_encode] \<and>
              fallback_codec_allocated st' = fallback_codec_allocated st \<and> \<not> use_fallback_codec st' \<and>
              take (archive_nbyte d_anchor out4 d_spfmt) (d_reserved_compressed st') =
                 header_image (header st') @ bytes_of_Data d_anchor @ out4 @ d_spfmt"
      unfolding run_def ok
      by (simp add: st0_def update_header_def log_call_def archive_nbyte_def
          lenimg length_bytes_of_Data m_def N_def)
  }
qed





text \<open>
  C6. The claim is what the code aims at: \<open>compress\<close> resets \<open>use_fallback_codec\<close>
  at its end (``considering that codec can be consecutively in use''), so that a call
  that needs no fallback stamps \<open>header.byte_vle = 4\<close>. The reset is skipped when an
  exception leaves the call after \<open>encode_with_fallback_codec\<close> has set the flag, and
  the next call on the same object inherits it.

  Two calls on one compressor object, with codecs that both fail when the code book
  has more than 1024 entries: the first call (\<open>radius = 1024\<close>) falls back, the 8-byte
  encoder throws too and the exception leaves \<open>compress\<close> with the flag set; in the
  second call (\<open>radius = 512\<close>) the 4-byte codec encodes, no fallback occurs, the
  fallback codec is not called, and the header is stamped \<open>byte_vle = 8\<close>.
\<close>

theorem compress_stale_fallback_flag:
  "case compress example_booklen_components (example_compressor 256)
          [Finite 1, Finite 1, Finite 1, Finite 1] (1 / 2) 1024 1 1 4 False of
     Inl (Thrown e st1) \<Rightarrow>
       e = runtime_error \<and> use_fallback_codec st1 \<and>
       (case compress example_booklen_components st1
               [Finite 1, Finite 1, Finite 1, Finite 1] (1 / 2) 512 1 1 4 False of
          Inr (st2, uncompressed', compressed_len) \<Rightarrow>
            h_byte_vle (header st2) = 8 \<and>
            call_log st2 = call_log st1 @ [Predictor_construct, SpReducer_gather 4, Codec_encode]
        | Inl f \<Rightarrow> False)
   | _ \<Rightarrow> False"
proof -
  let ?C = "example_booklen_components"
  let ?u = "[Finite 1, Finite 1, Finite 1, Finite 1]"
  have N: "predictor_get_data_len ?C = 4" "predictor_get_quant_len ?C = 4"
    "get_npart ?C 4 1 = 4"
    by (simp_all add: example_booklen_components_def example_four_components_def
        example_components_def)
  have h1: "4 \<le> length ?u" by simp
  have h2: "predictor_construct ?C ?u (1 / 2) r = Inr (?u, [], [5, 4, 4, 4])" for r
    by (simp add: example_booklen_components_def example_four_components_def
        example_components_def)
  have h3: "get_square_size 4 * get_square_size 4 \<le> length ?u"
    by (simp add: get_square_size_4)
  have h4: "spreducer_gather ?C (take (get_square_size 4 * get_square_size 4) ?u) = Inr []"
    by (simp add: example_booklen_components_def example_four_components_def
        example_components_def)
  have big4: "codec_encode ?C [5, 4, 4, 4] 4 (1024 * 2) 4 1 = Inl runtime_error"
    and big8: "fb_codec_encode ?C [5, 4, 4, 4] 4 (1024 * 2) 4 1 = Inl runtime_error"
    and small4: "codec_encode ?C [5, 4, 4, 4] 4 (512 * 2) 4 1 = Inr [Raw 5, Raw 4, Raw 4, Raw 4]"
    by (simp_all add: example_booklen_components_def)
  obtain st1 where run1: "compress ?C (example_compressor 256) ?u (1 / 2) 1024 1 1 4 False =
        Inl (Thrown runtime_error st1)"
    and flag: "use_fallback_codec st1"
    and res: "d_reserved_compressed st1 = d_reserved_compressed (example_compressor 256)"
    using compress_codec_paths[where comps = ?C and st = "example_compressor 256"
        and uncompressed = ?u and eb = "1 / 2" and radius = 1024 and pardeg = 1
        and ?u1.0 = ?u and d_anchor = "[]" and d_errctrl = "[5, 4, 4, 4]"
        and d_spfmt = "[]" and ?r4.0 = "Inl runtime_error" and ?r8.0 = "Inl runtime_error"
        and e = runtime_error and codecs_in_use = 1 and nz_density_factor = 4,
        unfolded N, OF h1 h2 h3 h4 big4 big8]
    by blast
  have fits: "archive_fits st1 [] [Raw 5, Raw 4, Raw 4, Raw 4] []"
    by (simp add: archive_fits_def archive_nbyte_def res example_compressor_def)
  obtain st2 len where run2: "compress ?C st1 ?u (1 / 2) 512 1 1 4 False = Inr (st2, ?u, len)"
    and vle: "h_byte_vle (header st2) = (if use_fallback_codec st1 then 8 else 4)"
    and log: "call_log st2 = call_log st1 @
         [Predictor_construct, SpReducer_gather (get_square_size 4 * get_square_size 4), Codec_encode]"
    using compress_codec_paths[where comps = ?C and st = st1
        and uncompressed = ?u and eb = "1 / 2" and radius = 512 and pardeg = 1
        and ?u1.0 = ?u and d_anchor = "[]" and d_errctrl = "[5, 4, 4, 4]"
        and d_spfmt = "[]" and ?r4.0 = "Inr [Raw 5, Raw 4, Raw 4, Raw 4]"
        and ?out4.0 = "[Raw 5, Raw 4, Raw 4, Raw 4]"
        and codecs_in_use = 1 and nz_density_factor = 4,
        unfolded N, OF h1 h2 h3 h4 small4 refl] fits
    by blast
  show ?thesis
    by (simp add: run1 run2 flag vle log get_square_size_4)
qed

text \<open>
  C7 (amended). For every archive produced by \<open>compress\<close> whose total size (128-byte
  header, anchor, Huffman and sparse subfiles) is below \<open>2^32\<close> and fits the reserved
  buffer: the entry table is non-decreasing, \<open>entry[k] \<le> entry[k+1]\<close> for every slot
  \<open>k < END\<close>, and \<open>entry[END]\<close> equals the reported compressed length, which is the
  length of the archive written to the start of the reserved buffer.
\<close>

theorem compress_entry_table:
  assumes "predictor_get_data_len comps \<le> length uncompressed"
    "predictor_construct comps uncompressed eb radius = Inr (u1, d_anchor, d_errctrl)"
    "get_square_size (predictor_get_data_len comps) * get_square_size (predictor_get_data_len comps)
       \<le> length u1"
    "spreducer_gather comps (take (get_square_size (predictor_get_data_len comps) *
        get_square_size (predictor_get_data_len comps)) u1) = Inr d_spfmt"
    "codec_do_with_exception comps st force d_errctrl (predictor_get_quant_len comps) radius
       (get_npart comps (predictor_get_data_len comps) pardeg) pardeg = Inr (stc, d_codec_out)"
    "archive_fits st d_anchor d_codec_out d_spfmt"
  shows "\<exists>st' compressed_len.
           compress comps st uncompressed eb radius pardeg codecs_in_use nz_density_factor force =
             Inr (st', u1, compressed_len) \<and>
           (\<forall>k<HEADER_END. h_entry (header st') k \<le> h_entry (header st') (Suc k)) \<and>
           unat (h_entry (header st') HEADER_END) = compressed_len \<and>
           compressed_len = length (header_image (header st') @ bytes_of_Data d_anchor @ d_codec_out @ d_spfmt) \<and>
           take compressed_len (d_reserved_compressed st') =
             header_image (header st') @ bytes_of_Data d_anchor @ d_codec_out @ d_spfmt"
proof -
  obtain st' where run: "compress comps st uncompressed eb radius pardeg codecs_in_use nz_density_factor force =
             Inr (st', u1, archive_nbyte d_anchor d_codec_out d_spfmt)"
    and ent: "h_entry (header st') = entries_of (h_entry (header st)) (sizeof_T * length d_anchor)
                 (length d_codec_out) (length d_spfmt)"
    and blob: "take (archive_nbyte d_anchor d_codec_out d_spfmt) (d_reserved_compressed st') =
             header_image (header st') @ bytes_of_Data d_anchor @ d_codec_out @ d_spfmt"
    using compress_ok_result[OF assms] by blast
  have tot: "128 + sizeof_T * length d_anchor + length d_codec_out + length d_spfmt < 2 ^ 32"
    using assms(6) by (simp add: archive_fits_def archive_nbyte_def)
  have mono: "\<forall>k<HEADER_END. h_entry (header st') k \<le> h_entry (header st') (Suc k)"
    unfolding ent HEADER_END_def using entries_of_mono[OF tot] by blast
  have e4: "unat (h_entry (header st') HEADER_END) = archive_nbyte d_anchor d_codec_out d_spfmt"
    unfolding ent HEADER_END_def using entries_of_unat(5)[OF tot] by (simp add: archive_nbyte_def)
  have len: "archive_nbyte d_anchor d_codec_out d_spfmt =
      length (header_image (header st') @ bytes_of_Data d_anchor @ d_codec_out @ d_spfmt)"
    by (simp add: archive_nbyte_def header_image_def sizeof_HEADER_def length_bytes_of_Data)
  show ?thesis
    using run mono e4 len blob by metis
qed


text \<open>Witness: four samples, a 4-byte stream of four bytes, no outliers; 132 bytes.\<close>
theorem compress_entry_table_witness:
  "predictor_get_data_len (example_four_components (Inr [Raw 5, Raw 4, Raw 4, Raw 4]))
     \<le> length [Finite 1, Finite 1, Finite 1, Finite 1] \<and>
   predictor_construct (example_four_components (Inr [Raw 5, Raw 4, Raw 4, Raw 4]))
     [Finite 1, Finite 1, Finite 1, Finite 1] (1 / 2) 4 = Inr ([Finite 1, Finite 1, Finite 1, Finite 1], [], [5, 4, 4, 4]) \<and>
   get_square_size 4 * get_square_size 4 \<le> length [Finite 1, Finite 1, Finite 1, Finite 1] \<and>
   spreducer_gather (example_four_components (Inr [Raw 5, Raw 4, Raw 4, Raw 4]))
     (take (get_square_size 4 * get_square_size 4) [Finite 1, Finite 1, Finite 1, Finite 1]) = Inr [] \<and>
   codec_do_with_exception (example_four_components (Inr [Raw 5, Raw 4, Raw 4, Raw 4]))
     (example_compressor 256) False [5, 4, 4, 4] 4 4 4 1 =
     Inr (log_call Codec_encode (example_compressor 256), [Raw 5, Raw 4, Raw 4, Raw 4]) \<and>
   archive_fits (example_compressor 256) [] [Raw 5, Raw 4, Raw 4, Raw 4] [] \<and>
   (\<exists>st' compressed_len.
       compress (example_four_components (Inr [Raw 5, Raw 4, Raw 4, Raw 4]))
         (example_compressor 256) [Finite 1, Finite 1, Finite 1, Finite 1] (1 / 2) 4 1 1 4 False =
         Inr (st', [Finite 1, Finite 1, Finite 1, Finite 1], compressed_len) \<and>
       (\<forall>k<HEADER_END. h_entry (header st') k \<le> h_entry (header st') (Suc k)) \<and>
       unat (h_entry (header st') HEADER_END) = compressed_len \<and>
       compressed_len = 132)"
proof -
  let ?C = "example_four_components (Inr [Raw 5, Raw 4, Raw 4, Raw 4])"
  have N: "predictor_get_data_len ?C = 4" "predictor_get_quant_len ?C = 4"
    "get_npart ?C 4 1 = 4"
    by (simp_all add: example_four_components_def example_components_def)
  have h1: "predictor_get_data_len ?C \<le> length [Finite 1, Finite 1, Finite 1, Finite 1]"
    by (simp add: N)
  have h2: "predictor_construct ?C [Finite 1, Finite 1, Finite 1, Finite 1] (1 / 2) 4 = Inr ([Finite 1, Finite 1, Finite 1, Finite 1], [], [5, 4, 4, 4])"
    by (simp add: example_four_components_def example_components_def)
  have h3: "get_square_size 4 * get_square_size 4 \<le> length [Finite 1, Finite 1, Finite 1, Finite 1]"
    by (simp add: get_square_size_4)
  have h4: "spreducer_gather ?C (take (get_square_size 4 * get_square_size 4) [Finite 1, Finite 1, Finite 1, Finite 1]) = Inr []"
    by (simp add: example_four_components_def example_components_def)
  have h5: "codec_do_with_exception ?C (example_compressor 256) False [5, 4, 4, 4] 4 4 4 1 =
     Inr (log_call Codec_encode (example_compressor 256), [Raw 5, Raw 4, Raw 4, Raw 4])"
    by (rule codec_do_no_fallback)
       (simp_all add: example_four_components_def example_components_def)
  have h6: "archive_fits (example_compressor 256) [] [Raw 5, Raw 4, Raw 4, Raw 4] []"
    by (simp add: archive_fits_def archive_nbyte_def example_compressor_def)
  have "\<exists>st' compressed_len.
           compress ?C (example_compressor 256) [Finite 1, Finite 1, Finite 1, Finite 1] (1 / 2) 4 1 1 4 False =
             Inr (st', [Finite 1, Finite 1, Finite 1, Finite 1], compressed_len) \<and>
           (\<forall>k<HEADER_END. h_entry (header st') k \<le> h_entry (header st') (Suc k)) \<and>
           unat (h_entry (header st') HEADER_END) = compressed_len \<and>
           compressed_len = length (header_image (header st') @ bytes_of_Data [] @
              [Raw 5, Raw 4, Raw 4, Raw 4] @ []) \<and>
           take compressed_len (d_reserved_compressed st') =
             header_image (header st') @ bytes_of_Data [] @ [Raw 5, Raw 4, Raw 4, Raw 4] @ []"
    using compress_entry_table[where comps = ?C and st = "example_compressor 256"
        and uncompressed = "[Finite 1, Finite 1, Finite 1, Finite 1]" and eb = "1 / 2" and radius = 4 and pardeg = 1
        and ?u1.0 = "[Finite 1, Finite 1, Finite 1, Finite 1]" and d_anchor = "[]" and d_errctrl = "[5, 4, 4, 4]"
        and d_spfmt = "[]" and d_codec_out = "[Raw 5, Raw 4, Raw 4, Raw 4]" and force = False
        and stc = "log_call Codec_encode (example_compressor 256)"
        and codecs_in_use = 1 and nz_density_factor = 4,
        unfolded N, OF h1[unfolded N] h2 h3 h4 h5 h6]
    by blast
  then obtain st' compressed_len where r:
    "compress ?C (example_compressor 256) [Finite 1, Finite 1, Finite 1, Finite 1] (1 / 2) 4 1 1 4 False =
             Inr (st', [Finite 1, Finite 1, Finite 1, Finite 1], compressed_len)"
    "\<forall>k<HEADER_END. h_entry (header st') k \<le> h_entry (header st') (Suc k)"
    "unat (h_entry (header st') HEADER_END) = compressed_len"
    "compressed_len = length (header_image (header st') @ bytes_of_Data [] @
              [Raw 5, Raw 4, Raw 4, Raw 4] @ [])"
    by blast
  from r(4) have "compressed_len = 132"
    by (simp add: header_image_def sizeof_HEADER_def bytes_of_Data_def)
  with r(1-3) h1 h2 h3 h4 h5 h6 show ?thesis by blast
qed


text \<open>
  C7 as stated (every archive) fails when the sizes wrap in \<open>uint32_t\<close>: with subfiles
  of \<open>2^31\<close> bytes each (an input of \<open>2^31 + 64\<close> samples, reserved buffer
  \<open>2^32 + 128\<close> bytes) the copies succeed, \<open>entry[SPFMT] = 2^31 + 128\<close> and
  \<open>entry[END]\<close> wraps to 128, which is also the reported length.
\<close>

theorem compress_entry_table_counterexample:
  "case compress
          (example_components 2147483712 (\<lambda>u eb radius. Inr (u, [], []))
             (Inr (replicate 2147483648 (Raw 0))) (Inr []) (replicate 2147483648 (Raw 0)) [] [])
          (example_compressor 4294967424) (replicate 2147488281 (Finite 0)) (1 / 2) 512 1 1 4 False of
     Inl e \<Rightarrow> False
   | Inr (st', uncompressed', compressed_len) \<Rightarrow>
       h_entry (header st') HEADER_END < h_entry (header st') HEADER_SPFMT \<and> compressed_len = 128"
proof -
  let ?C = "example_components 2147483712 (\<lambda>u eb radius. Inr (u, [], []))
             (Inr (replicate 2147483648 (Raw 0))) (Inr []) (replicate 2147483648 (Raw 0)) [] []"
  let ?old = "replicate 4294967424 Uninit"
  define st1 where "st1 = update_header (log_call Codec_encode (log_call (SpReducer_gather 2147488281)
       (log_call Predictor_construct ((example_compressor 4294967424)
          \<lparr>header := (header (example_compressor 4294967424))\<lparr>h_codecs_in_use := 1,
                      h_nz_density_factor := 4\<rparr>\<rparr>)))) (1 / 2) 512 1"
  have res: "d_reserved_compressed st1 = ?old"
    by (simp add: st1_def update_header_def log_call_def example_compressor_def)
  define hdr where "hdr = (header st1)\<lparr>h_header_nbyte := 128,
              h_entry := entries_of (h_entry (header st1)) 0 2147483648 2147483648\<rparr>"
  have ent: "h_entry hdr HEADER_ANCHOR = 128" "h_entry hdr HEADER_VLE = 128"
    "h_entry hdr HEADER_SPFMT = 2147483776" "h_entry hdr HEADER_END = 128"
    by (simp_all add: hdr_def entries_of_def HEADER_ANCHOR_def HEADER_VLE_def HEADER_SPFMT_def
        HEADER_END_def)
  have sc: "\<exists>st2. subfile_collect st1 [] (replicate 2147483648 (Raw 0)) (replicate 2147483648 (Raw 0)) = Inr st2"
    unfolding subfile_collect_def Let_def
    by (simp add: res cudaMemcpy_def fill_entries_eq header_image_def sizeof_HEADER_def
        HEADER_HEADER_def HEADER_ANCHOR_def HEADER_VLE_def HEADER_SPFMT_def bytes_of_Data_def)
  then obtain st2 where st2: "subfile_collect st1 [] (replicate 2147483648 (Raw 0)) (replicate 2147483648 (Raw 0)) = Inr st2"
    by blast
  have h2: "header st2 = hdr"
    using subfile_collect_header[OF st2] by (simp add: hdr_def)
  have run: "compress ?C (example_compressor 4294967424) (replicate 2147488281 (Finite 0)) (1 / 2) 512 1 1 4 False =
               Inr (st2\<lparr>use_fallback_codec := False\<rparr>, replicate 2147488281 (Finite 0), file_size (header st2))"
    unfolding compress_def Let_def
    by (simp add: example_components_def get_square_size_large codec_do_with_exception_def
        st1_def[symmetric] st2)
  show ?thesis
    unfolding run by (simp add: h2 ent file_size_def word_less_nat_alt)
qed


text \<open>
  C8 (amended). \<open>compress\<close> makes no inflation check and raises no error of its own.
  On a compressor whose reserved buffer has the \<open>N * sizeof(T) / 2\<close> bytes that
  \<open>allocate_workspace\<close> gives it, with components that return and an archive of
  fewer than \<open>2^32\<close> bytes: if the archive (128-byte header, anchor, Huffman and sparse
  subfiles) fits the reserved buffer, the call returns and reports its size, which is
  then at most \<open>N * sizeof(T) / 2\<close>; if it does not fit, a copy of \<open>subfile_collect\<close>
  runs past the end of the reserved buffer.
\<close>

theorem compress_no_inflation_check:
  assumes "predictor_get_data_len comps \<le> length uncompressed"
    "predictor_construct comps uncompressed eb radius = Inr (u1, d_anchor, d_errctrl)"
    "get_square_size (predictor_get_data_len comps) * get_square_size (predictor_get_data_len comps)
       \<le> length u1"
    "spreducer_gather comps (take (get_square_size (predictor_get_data_len comps) *
        get_square_size (predictor_get_data_len comps)) u1) = Inr d_spfmt"
    "codec_do_with_exception comps st force d_errctrl (predictor_get_quant_len comps) radius
       (get_npart comps (predictor_get_data_len comps) pardeg) pardeg = Inr (stc, d_codec_out)"
    "length (d_reserved_compressed st) = predictor_get_data_len comps * sizeof_T div 2"
    "archive_nbyte d_anchor d_codec_out d_spfmt < 2 ^ 32"
  shows "(archive_nbyte d_anchor d_codec_out d_spfmt \<le> predictor_get_data_len comps * sizeof_T div 2 \<longrightarrow>
            (\<exists>st'. compress comps st uncompressed eb radius pardeg codecs_in_use nz_density_factor force =
                     Inr (st', u1, archive_nbyte d_anchor d_codec_out d_spfmt))) \<and>
         (predictor_get_data_len comps * sizeof_T div 2 < archive_nbyte d_anchor d_codec_out d_spfmt \<longrightarrow>
            compress comps st uncompressed eb radius pardeg codecs_in_use nz_density_factor force =
              Inl Out_of_bounds_write)"
proof (intro conjI impI)
  assume "archive_nbyte d_anchor d_codec_out d_spfmt \<le> predictor_get_data_len comps * sizeof_T div 2"
  then have "archive_fits st d_anchor d_codec_out d_spfmt"
    using assms(6,7) by (simp add: archive_fits_def)
  from compress_ok_result[OF assms(1-5) this]
  show "\<exists>st'. compress comps st uncompressed eb radius pardeg codecs_in_use nz_density_factor force =
                     Inr (st', u1, archive_nbyte d_anchor d_codec_out d_spfmt)"
    by blast
next
  assume "predictor_get_data_len comps * sizeof_T div 2 < archive_nbyte d_anchor d_codec_out d_spfmt"
  then have "length (d_reserved_compressed st) < archive_nbyte d_anchor d_codec_out d_spfmt"
    using assms(6) by simp
  then show "compress comps st uncompressed eb radius pardeg codecs_in_use nz_density_factor force =
              Inl Out_of_bounds_write"
    by (rule compress_overflow[OF assms(1-5) assms(7)])
qed

text \<open>
  Witness: 128 samples (reserved buffer 256 bytes), a Huffman stream of 16 bytes, no
  outliers: the archive has 144 bytes.
\<close>

theorem compress_no_inflation_check_witness:
  "predictor_get_data_len
     (example_components 128 (\<lambda>u eb radius. Inr (u, [], replicate 128 4))
        (Inr (replicate 16 (Raw 0))) (Inr []) [] [] []) \<le> length (replicate 144 (Finite 0)) \<and>
   predictor_construct
     (example_components 128 (\<lambda>u eb radius. Inr (u, [], replicate 128 4))
        (Inr (replicate 16 (Raw 0))) (Inr []) [] [] []) (replicate 144 (Finite 0)) (1 / 2) 4 =
     Inr (replicate 144 (Finite 0), [], replicate 128 4) \<and>
   get_square_size 128 * get_square_size 128 \<le> length (replicate 144 (Finite 0)) \<and>
   spreducer_gather
     (example_components 128 (\<lambda>u eb radius. Inr (u, [], replicate 128 4))
        (Inr (replicate 16 (Raw 0))) (Inr []) [] [] [])
     (take (get_square_size 128 * get_square_size 128) (replicate 144 (Finite 0))) = Inr [] \<and>
   codec_do_with_exception
     (example_components 128 (\<lambda>u eb radius. Inr (u, [], replicate 128 4))
        (Inr (replicate 16 (Raw 0))) (Inr []) [] [] [])
     (example_compressor 256) False (replicate 128 4) 128 4 128 1 =
     Inr (log_call Codec_encode (example_compressor 256), replicate 16 (Raw 0)) \<and>
   length (d_reserved_compressed (example_compressor 256)) = 128 * sizeof_T div 2 \<and>
   archive_nbyte [] (replicate 16 (Raw 0)) [] < 2 ^ 32 \<and>
   archive_nbyte [] (replicate 16 (Raw 0)) [] \<le> 128 * sizeof_T div 2 \<and>
   (\<exists>st'. compress
            (example_components 128 (\<lambda>u eb radius. Inr (u, [], replicate 128 4))
               (Inr (replicate 16 (Raw 0))) (Inr []) [] [] [])
            (example_compressor 256) (replicate 144 (Finite 0)) (1 / 2) 4 1 1 4 False =
          Inr (st', replicate 144 (Finite 0), 144))"
proof -
  let ?C = "example_components 128 (\<lambda>u eb radius. Inr (u, [], replicate 128 4))
        (Inr (replicate 16 (Raw 0))) (Inr []) [] [] []"
  have N: "predictor_get_data_len ?C = 128" "predictor_get_quant_len ?C = 128"
    "get_npart ?C 128 1 = 128"
    by (simp_all add: example_components_def)
  have h1: "predictor_get_data_len ?C \<le> length (replicate 144 (Finite 0))"
    by (simp add: N)
  have h2: "predictor_construct ?C (replicate 144 (Finite 0)) (1 / 2) 4 =
     Inr (replicate 144 (Finite 0), [], replicate 128 4)"
    by (simp add: example_components_def)
  have h3: "get_square_size 128 * get_square_size 128 \<le> length (replicate 144 (Finite 0))"
    by (simp add: get_square_size_128)
  have h4: "spreducer_gather ?C
     (take (get_square_size 128 * get_square_size 128) (replicate 144 (Finite 0))) = Inr []"
    by (simp add: example_components_def)
  have h5: "codec_do_with_exception ?C (example_compressor 256) False (replicate 128 4) 128 4 128 1 =
     Inr (log_call Codec_encode (example_compressor 256), replicate 16 (Raw 0))"
    by (rule codec_do_no_fallback) (simp_all add: example_components_def)
  have h6: "length (d_reserved_compressed (example_compressor 256)) = 128 * sizeof_T div 2"
    by (simp add: example_compressor_def sizeof_T_def)
  have h7: "archive_nbyte [] (replicate 16 (Raw 0)) [] < 2 ^ 32"
    by (simp add: archive_nbyte_def)
  have h8: "archive_nbyte [] (replicate 16 (Raw 0)) [] \<le> 128 * sizeof_T div 2"
    by (simp add: archive_nbyte_def sizeof_T_def)
  have v: "archive_nbyte [] (replicate 16 (Raw 0)) [] = 144"
    by (simp add: archive_nbyte_def)
  have "\<exists>st'. compress ?C (example_compressor 256) (replicate 144 (Finite 0)) (1 / 2) 4 1 1 4 False =
          Inr (st', replicate 144 (Finite 0), archive_nbyte [] (replicate 16 (Raw 0)) [])"
    using compress_no_inflation_check[where comps = ?C and st = "example_compressor 256"
        and uncompressed = "replicate 144 (Finite 0)" and eb = "1 / 2" and radius = 4 and pardeg = 1
        and ?u1.0 = "replicate 144 (Finite 0)" and d_anchor = "[]" and d_errctrl = "replicate 128 4"
        and d_spfmt = "[]" and d_codec_out = "replicate 16 (Raw 0)" and force = False
        and stc = "log_call Codec_encode (example_compressor 256)"
        and codecs_in_use = 1 and nz_density_factor = 4,
        unfolded N, OF h1[unfolded N] h2 h3 h4 h5 h6 h7] h8
    by blast
  then have "\<exists>st'. compress ?C (example_compressor 256) (replicate 144 (Finite 0)) (1 / 2) 4 1 1 4 False =
          Inr (st', replicate 144 (Finite 0), 144)"
    unfolding v .
  with h1 h2 h3 h4 h5 h6 h7 h8 show ?thesis by blast
qed


text \<open>
  C8 as stated fails: for a single sample the reserved buffer has 2 bytes, and the copy
  of the 128-byte header runs past it; the call neither reports a length of at most 2
  nor raises an error.
\<close>

theorem compress_no_inflation_check_counterexample:
  "\<not> spec_inflation_guard 1
       (case allocate_workspace
               (example_components 1 (\<lambda>u eb radius. Inr (u, [], [5]))
                  (Inr [Raw 5]) (Inr [Raw 5]) [] [5] [5])
               (example_compressor 0) 4 1 4 1 of
          Inl e \<Rightarrow> Inl e
        | Inr st \<Rightarrow>
            compress
              (example_components 1 (\<lambda>u eb radius. Inr (u, [], [5]))
                 (Inr [Raw 5]) (Inr [Raw 5]) [] [5] [5])
              st [Finite 1] (1 / 2) 4 1 1 4 False)"
proof -
  let ?C = "example_components 1 (\<lambda>u eb radius. Inr (u, [], [5]))
                  (Inr [Raw 5]) (Inr [Raw 5]) [] [5] [5]"
  obtain st where alloc: "allocate_workspace ?C (example_compressor 0) 4 1 4 1 = Inr st"
    and res: "length (d_reserved_compressed st) = 2"
    by (simp add: allocate_workspace_def Let_def example_components_def sizeof_T_def)
  have N: "predictor_get_data_len ?C = 1" "predictor_get_quant_len ?C = 1" "get_npart ?C 1 1 = 1"
    by (simp_all add: example_components_def)
  have h1: "1 \<le> length [Finite 1]" by simp
  have h2: "predictor_construct ?C [Finite 1] (1 / 2) 4 = Inr ([Finite 1], [], [5])"
    by (simp add: example_components_def)
  have h3: "get_square_size 1 * get_square_size 1 \<le> length [Finite 1]"
    by (simp only: get_square_size_1) simp
  have h4: "spreducer_gather ?C (take (get_square_size 1 * get_square_size 1) [Finite 1]) = Inr []"
    by (simp add: example_components_def)
  have h5: "codec_do_with_exception ?C st False [5] 1 4 1 1 = Inr (log_call Codec_encode st, [Raw 5])"
    by (rule codec_do_no_fallback) (simp_all add: example_components_def)
  have h6: "archive_nbyte [] [Raw 5] [] < 2 ^ 32"
    by (simp add: archive_nbyte_def)
  have h7: "length (d_reserved_compressed st) < archive_nbyte [] [Raw 5] []"
    by (simp add: archive_nbyte_def res)
  have run: "compress ?C st [Finite 1] (1 / 2) 4 1 1 4 False = Inl Out_of_bounds_write"
    by (rule compress_overflow[where comps = ?C and ?u1.0 = "[Finite 1]" and d_anchor = "[]"
          and d_errctrl = "[5]" and d_spfmt = "[]" and d_codec_out = "[Raw 5]"
          and stc = "log_call Codec_encode st" and st = st and uncompressed = "[Finite 1]"
          and eb = "1 / 2" and radius = 4 and pardeg = 1 and force = False,
          unfolded N, OF h1 h2 h3 h4 h5 h6 h7])
  show ?thesis
    by (simp only: alloc sum.case run spec_inflation_guard_def) simp
qed










end
